theory Spec2Isabelle
  imports Main
begin

section \<open>Python strings\<close>

text \<open>
  A Python \<open>str\<close> is modelled as a \<open>string\<close> whose characters stand for the code
  points below 256. The helpers below are the three \<open>str\<close> methods that
  \<open>sync_games_to_calendar\<close> applies to an event description.
\<close>

definition startswith :: "string \<Rightarrow> string \<Rightarrow> bool" where
  "startswith s p = (take (length p) s = p)"

text \<open>\<open>s.split(sep)\<close> for a one-character separator: never empty, keeps empty pieces.\<close>

fun split_on :: "char \<Rightarrow> string \<Rightarrow> string list" where
  "split_on sep [] = [[]]"
| "split_on sep (c # cs) =
     (if c = sep then [] # split_on sep cs
      else (case split_on sep cs of [] \<Rightarrow> [[c]] | l # ls \<Rightarrow> (c # l) # ls))"

text \<open>
  \<open>str.isspace\<close> on the code points below 256: TAB..CR, FS..US, space, NEL and the
  no-break space.
\<close>

definition py_isspace :: "char \<Rightarrow> bool" where
  "py_isspace c =
     (let n = (of_char c :: nat)
      in (9 \<le> n \<and> n \<le> 13) \<or> (28 \<le> n \<and> n \<le> 32) \<or> n = 133 \<or> n = 160)"

definition strip :: "string \<Rightarrow> string" where
  "strip s = rev (dropWhile py_isspace (rev (dropWhile py_isspace s)))"

definition is_digit :: "char \<Rightarrow> bool" where
  "is_digit c = (c \<in> set ''0123456789'')"

definition digit_val :: "char \<Rightarrow> nat" where
  "digit_val c = of_char c - 48"

definition pad2 :: "nat \<Rightarrow> string" where
  "pad2 n = [''0123456789'' ! ((n div 10) mod 10), ''0123456789'' ! (n mod 10)]"

definition pad4 :: "nat \<Rightarrow> string" where
  "pad4 n = pad2 (n div 100) @ pad2 (n mod 100)"

section \<open>Errors\<close>

text \<open>
  The exceptions the modelled code can meet: \<open>ValueError\<close> (\<open>strptime\<close>, the
  credentials check), \<open>KeyError\<close> (a missing dictionary key), \<open>OverflowError\<close>
  (a datetime past year 9999) and \<open>HttpError\<close> (a failed call to the calendar provider).
\<close>

datatype error = ValueError | KeyError string | OverflowError | HttpError

section \<open>\<open>datetime.strptime\<close> on the two literal formats\<close>

text \<open>
  \<open>strptime\<close> turns the format into a regular expression, matches it at the start of
  the string and raises \<open>ValueError\<close> when nothing matches or when unconverted data
  remains. The directives used are
  \<open>%Y = \d\d\d\d\<close>, \<open>%m = 1[0-2]|0[1-9]|[1-9]\<close>,
  \<open>%d = 3[0-1]|[1-2]\d|0[1-9]|[1-9]| [1-9]\<close>, \<open>%H = 2[0-3]|[0-1]\d|\d\<close> and
  \<open>%M = [0-5]\d|\d\<close>. Each function below returns the value of the first alternative
  that matches and the rest of the string. In both formats a two-character alternative
  that matches is followed by a literal separator or by the end of the pattern, and the
  one-character alternative after it would need the separator where a digit stands, so
  taking the first matching alternative is what the backtracking matcher does.
\<close>

fun re_Y :: "string \<Rightarrow> (nat \<times> string) option" where
  "re_Y (a # b # c # d # r) =
     (if is_digit a \<and> is_digit b \<and> is_digit c \<and> is_digit d
      then Some (1000 * digit_val a + 100 * digit_val b + 10 * digit_val c + digit_val d, r)
      else None)"
| "re_Y _ = None"

fun re_m :: "string \<Rightarrow> (nat \<times> string) option" where
  "re_m [] = None"
| "re_m [a] = (if a \<in> set ''123456789'' then Some (digit_val a, []) else None)"
| "re_m (a # b # r) =
     (if a = CHR ''1'' \<and> b \<in> set ''012'' then Some (10 + digit_val b, r)
      else if a = CHR ''0'' \<and> b \<in> set ''123456789'' then Some (digit_val b, r)
      else if a \<in> set ''123456789'' then Some (digit_val a, b # r)
      else None)"

fun re_d :: "string \<Rightarrow> (nat \<times> string) option" where
  "re_d [] = None"
| "re_d [a] = (if a \<in> set ''123456789'' then Some (digit_val a, []) else None)"
| "re_d (a # b # r) =
     (if a = CHR ''3'' \<and> b \<in> set ''01'' then Some (30 + digit_val b, r)
      else if a \<in> set ''12'' \<and> is_digit b then Some (10 * digit_val a + digit_val b, r)
      else if a = CHR ''0'' \<and> b \<in> set ''123456789'' then Some (digit_val b, r)
      else if a \<in> set ''123456789'' then Some (digit_val a, b # r)
      else if a = CHR '' '' \<and> b \<in> set ''123456789'' then Some (digit_val b, r)
      else None)"

fun re_H :: "string \<Rightarrow> (nat \<times> string) option" where
  "re_H [] = None"
| "re_H [a] = (if is_digit a then Some (digit_val a, []) else None)"
| "re_H (a # b # r) =
     (if a = CHR ''2'' \<and> b \<in> set ''0123'' then Some (20 + digit_val b, r)
      else if a \<in> set ''01'' \<and> is_digit b then Some (10 * digit_val a + digit_val b, r)
      else if is_digit a then Some (digit_val a, b # r)
      else None)"

fun re_M :: "string \<Rightarrow> (nat \<times> string) option" where
  "re_M [] = None"
| "re_M [a] = (if is_digit a then Some (digit_val a, []) else None)"
| "re_M (a # b # r) =
     (if a \<in> set ''012345'' \<and> is_digit b then Some (10 * digit_val a + digit_val b, r)
      else if is_digit a then Some (digit_val a, b # r)
      else None)"

definition expect :: "char \<Rightarrow> string \<Rightarrow> string option" where
  "expect ch s = (case s of [] \<Rightarrow> None | c # r \<Rightarrow> if c = ch then Some r else None)"

definition is_leap :: "nat \<Rightarrow> bool" where
  "is_leap y = (y mod 4 = 0 \<and> (y mod 100 \<noteq> 0 \<or> y mod 400 = 0))"

definition days_in_month :: "nat \<Rightarrow> nat \<Rightarrow> nat" where
  "days_in_month y m =
     (if m = 2 then (if is_leap y then 29 else 28)
      else if m \<in> {4, 6, 9, 11} then 30 else 31)"

record datetime =
  year :: nat
  month :: nat
  day :: nat
  hour :: nat
  minute :: nat

text \<open>
  \<open>datetime.strptime(s, '%Y-%m-%d')\<close>: the three fields, then the checks of the
  \<open>datetime\<close> constructor (year at least 1, day within the month). \<open>None\<close> is the
  \<open>ValueError\<close>.
\<close>

definition strptime_date :: "string \<Rightarrow> (nat \<times> nat \<times> nat) option" where
  "strptime_date s =
     (case re_Y s of None \<Rightarrow> None
      | Some (y, r1) \<Rightarrow>
     (case expect CHR ''-'' r1 of None \<Rightarrow> None
      | Some r2 \<Rightarrow>
     (case re_m r2 of None \<Rightarrow> None
      | Some (m, r3) \<Rightarrow>
     (case expect CHR ''-'' r3 of None \<Rightarrow> None
      | Some r4 \<Rightarrow>
     (case re_d r4 of None \<Rightarrow> None
      | Some (d, r5) \<Rightarrow>
         if r5 \<noteq> [] then None
         else if y < 1 \<or> days_in_month y m < d then None
         else Some (y, m, d))))))"

text \<open>\<open>datetime.strptime(s, '%H:%M').time()\<close>: hour and minute.\<close>

definition strptime_time :: "string \<Rightarrow> (nat \<times> nat) option" where
  "strptime_time s =
     (case re_H s of None \<Rightarrow> None
      | Some (h, r1) \<Rightarrow>
     (case expect CHR '':'' r1 of None \<Rightarrow> None
      | Some r2 \<Rightarrow>
     (case re_M r2 of None \<Rightarrow> None
      | Some (mi, r3) \<Rightarrow> if r3 \<noteq> [] then None else Some (h, mi))))"

definition combine :: "nat \<times> nat \<times> nat \<Rightarrow> nat \<times> nat \<Rightarrow> datetime" where
  "combine d t =
     \<lparr>year = fst d, month = fst (snd d), day = snd (snd d), hour = fst t, minute = snd t\<rparr>"

text \<open>
  \<open>start_time + timedelta(hours=3)\<close>: at most one day is crossed; past
  31 December 9999 the addition raises \<open>OverflowError\<close> (\<open>None\<close> here).
\<close>

definition plus_3_hours :: "datetime \<Rightarrow> datetime option" where
  "plus_3_hours t =
     (if hour t + 3 < 24 then Some (t\<lparr>hour := hour t + 3\<rparr>)
      else if day t < days_in_month (year t) (month t)
        then Some (t\<lparr>day := day t + 1, hour := hour t + 3 - 24\<rparr>)
      else if month t < 12
        then Some (t\<lparr>month := month t + 1, day := 1, hour := hour t + 3 - 24\<rparr>)
      else if year t < 9999
        then Some (t\<lparr>year := year t + 1, month := 1, day := 1, hour := hour t + 3 - 24\<rparr>)
      else None)"

text \<open>\<open>isoformat()\<close> of a datetime whose seconds and microseconds are zero.\<close>

definition isoformat :: "datetime \<Rightarrow> string" where
  "isoformat t =
     pad4 (year t) @ ''-'' @ pad2 (month t) @ ''-'' @ pad2 (day t) @ ''T'' @
     pad2 (hour t) @ '':'' @ pad2 (minute t) @ '':00''"

section \<open>Games and calendar events\<close>

text \<open>
  A game is the dictionary stored by the data sync. Every key may be absent
  (\<open>None\<close>); a present value is held as the text an f-string renders for it.
\<close>

record team =
  name :: "string option"

record teams_dict =
  away :: "team option"
  home :: "team option"

record game =
  game_id :: "string option"
  season :: "string option"
  week :: "string option"
  game_date :: "string option"
  game_time :: "string option"
  teams :: "teams_dict option"
  participating_teams :: "string list"

text \<open>
  The event dictionary of the Calendar API. An event listed by the provider may have
  no \<open>description\<close> key.
\<close>

record event =
  summary :: string
  location :: string
  description :: "string option"
  start_dateTime :: string
  start_timeZone :: string
  end_dateTime :: string
  end_timeZone :: string
  reminders_useDefault :: bool
  reminders_overrides :: "(string \<times> nat) list"
  colorId :: string

text \<open>
  \<open>_create_event_from_game\<close>. The lookups and parses fail in the order in which
  Python evaluates them: date, time, the end time, then the keys read by the
  \<open>summary\<close>, \<open>location\<close> and \<open>description\<close> f-strings.
\<close>

definition create_event_from_game :: "game \<Rightarrow> error + event" where
  "create_event_from_game g =
     (case game_date g of None \<Rightarrow> Inl (KeyError ''game_date'') | Some ds \<Rightarrow>
     (case strptime_date ds of None \<Rightarrow> Inl ValueError | Some d \<Rightarrow>
     (case game_time g of None \<Rightarrow> Inl (KeyError ''game_time'') | Some ts \<Rightarrow>
     (case strptime_time ts of None \<Rightarrow> Inl ValueError | Some t \<Rightarrow>
     (let start_time = combine d t in
     (case plus_3_hours start_time of None \<Rightarrow> Inl OverflowError | Some end_time \<Rightarrow>
     (case teams g of None \<Rightarrow> Inl (KeyError ''teams'') | Some tms \<Rightarrow>
     (case away tms of None \<Rightarrow> Inl (KeyError ''away'') | Some a \<Rightarrow>
     (case name a of None \<Rightarrow> Inl (KeyError ''name'') | Some away_name \<Rightarrow>
     (case home tms of None \<Rightarrow> Inl (KeyError ''home'') | Some h \<Rightarrow>
     (case name h of None \<Rightarrow> Inl (KeyError ''name'') | Some home_name \<Rightarrow>
     (case week g of None \<Rightarrow> Inl (KeyError ''week'') | Some wk \<Rightarrow>
     (case season g of None \<Rightarrow> Inl (KeyError ''season'') | Some sn \<Rightarrow>
     (case game_id g of None \<Rightarrow> Inl (KeyError ''game_id'') | Some gid \<Rightarrow>
        Inr \<lparr>summary = ''NFL: '' @ away_name @ '' vs '' @ home_name,
             location = home_name @ '' Stadium'',
             description = Some
               (''Week '' @ wk @ '' NFL Game'' @ [CHR 0x0A] @
                away_name @ '' at '' @ home_name @ [CHR 0x0A, CHR 0x0A] @
                ''Season: '' @ sn @ [CHR 0x0A] @
                ''Game ID: '' @ gid),
             start_dateTime = isoformat start_time,
             start_timeZone = ''America/New_York'',
             end_dateTime = isoformat end_time,
             end_timeZone = ''America/New_York'',
             reminders_useDefault = False,
             reminders_overrides = [(''popup'', 60), (''email'', 1440)],
             colorId = ''2''\<rparr>))))))))))))))"

section \<open>Reading the tag back\<close>

text \<open>
  \<open>line.split(':')[1].strip()\<close>. A line that starts with \<open>Game ID:\<close> has a colon,
  so the split has at least two pieces (lemma \<open>split_on_tag_line\<close>) and the last
  branch is never taken.
\<close>

definition tag_of_line :: "string \<Rightarrow> string" where
  "tag_of_line line =
     (case split_on CHR '':'' line of a # b # rest \<Rightarrow> strip b | _ \<Rightarrow> [])"

text \<open>The inner loop over the lines of a description, with its \<open>break\<close>.\<close>

fun scan_lines :: "string list \<Rightarrow> string option" where
  "scan_lines [] = None"
| "scan_lines (line # rest) =
     (if startswith line ''Game ID:'' then Some (tag_of_line line) else scan_lines rest)"

definition event_game_id :: "event \<Rightarrow> string option" where
  "event_game_id ev =
     (case description ev of None \<Rightarrow> None
      | Some d \<Rightarrow> scan_lines (split_on (CHR 0x0A) d))"

section \<open>The calendar provider\<close>

text \<open>
  Modelled from the spec: the Calendar Client of section 6 (list, create and update on
  the third-party calendar service, reached through \<open>googleapiclient\<close>, which is not
  part of the repository). Its state persists between calls: the stored events of all
  calendars and the next event id. Two parameters stand for what the provider decides
  alone: \<open>faults\<close> says which calls fail, by their position in the sequence of calls,
  and \<open>in_window\<close> says whether a listing with a given \<open>timeMin\<close> returns an event.
  Every call, failed or not, is recorded in \<open>calls\<close>.
\<close>

record cal_event =
  ev_cal :: string
  ev_id :: nat
  ev_body :: event

datatype call =
    ListCall string string
  | InsertCall string event
  | UpdateCall string nat event

record client =
  store :: "cal_event list"
  fresh :: nat
  calls :: "call list"
  faults :: "nat \<Rightarrow> bool"
  in_window :: "string \<Rightarrow> event \<Rightarrow> bool"

definition events_list ::
  "string \<Rightarrow> string \<Rightarrow> client \<Rightarrow> (error + cal_event list) \<times> client" where
  "events_list calendarId timeMin cl =
     (let cl' = cl\<lparr>calls := calls cl @ [ListCall calendarId timeMin]\<rparr>
      in if faults cl (length (calls cl)) then (Inl HttpError, cl')
         else (Inr (filter (\<lambda>e. ev_cal e = calendarId \<and> in_window cl timeMin (ev_body e))
                      (store cl)), cl'))"

definition events_insert ::
  "string \<Rightarrow> event \<Rightarrow> client \<Rightarrow> (error + nat) \<times> client" where
  "events_insert calendarId body cl =
     (let cl' = cl\<lparr>calls := calls cl @ [InsertCall calendarId body]\<rparr>
      in if faults cl (length (calls cl)) then (Inl HttpError, cl')
         else (Inr (fresh cl),
               cl'\<lparr>store := store cl @
                        [\<lparr>ev_cal = calendarId, ev_id = fresh cl, ev_body = body\<rparr>],
                   fresh := Suc (fresh cl)\<rparr>))"

definition is_event :: "string \<Rightarrow> nat \<Rightarrow> cal_event \<Rightarrow> bool" where
  "is_event calendarId eventId e = (ev_cal e = calendarId \<and> ev_id e = eventId)"

definition events_update ::
  "string \<Rightarrow> nat \<Rightarrow> event \<Rightarrow> client \<Rightarrow> (error + unit) \<times> client" where
  "events_update calendarId eventId body cl =
     (let cl' = cl\<lparr>calls := calls cl @ [UpdateCall calendarId eventId body]\<rparr>
      in if faults cl (length (calls cl)) \<or> \<not> list_ex (is_event calendarId eventId) (store cl)
         then (Inl HttpError, cl')
         else (Inr (),
               cl'\<lparr>store := map (\<lambda>e. if is_event calendarId eventId e
                                      then e\<lparr>ev_body := body\<rparr> else e) (store cl)\<rparr>))"

section \<open>The reconciler\<close>

text \<open>
  \<open>_build_calendar_service\<close>: the five keys must be present, else \<open>ValueError\<close>.
  Building the credentials object and the service object is taken to succeed.
\<close>

definition build_calendar_service :: "(string \<times> string) list \<Rightarrow> error + unit" where
  "build_calendar_service credentials_dict =
     (if list_all (\<lambda>k. k \<in> set (map fst credentials_dict))
           [''token'', ''refresh_token'', ''token_uri'', ''client_id'', ''client_secret'']
      then Inr () else Inl ValueError)"

text \<open>
  The indexing loop over the listed events: an event with a tag line overwrites the
  entry of its game id.
\<close>

fun index_events :: "cal_event list \<Rightarrow> (string \<rightharpoonup> nat) \<Rightarrow> (string \<rightharpoonup> nat)" where
  "index_events [] existing_events = existing_events"
| "index_events (e # es) existing_events =
     index_events es
       (case event_game_id (ev_body e) of
          None \<Rightarrow> existing_events
        | Some gid \<Rightarrow> existing_events(gid \<mapsto> ev_id e))"

text \<open>
  The \<open>try\<close> block of the per-game loop: transform, read \<open>game['game_id']\<close>, then
  update or insert.
\<close>

definition sync_game ::
  "string \<Rightarrow> (string \<rightharpoonup> nat) \<Rightarrow> game \<Rightarrow> client \<Rightarrow> (error + unit) \<times> client" where
  "sync_game calendar_id existing_events g cl =
     (case create_event_from_game g of
        Inl err \<Rightarrow> (Inl err, cl)
      | Inr ev \<Rightarrow>
          (case game_id g of
             None \<Rightarrow> (Inl (KeyError ''game_id''), cl)
           | Some gid \<Rightarrow>
               (case existing_events gid of
                  Some eid \<Rightarrow> events_update calendar_id eid ev cl
                | None \<Rightarrow>
                    (case events_insert calendar_id ev cl of
                       (Inl err, cl') \<Rightarrow> (Inl err, cl')
                     | (Inr new_id, cl') \<Rightarrow> (Inr (), cl')))))"

text \<open>The loop: a failed game is logged and skipped, a synced one is counted.\<close>

fun sync_each ::
  "string \<Rightarrow> (string \<rightharpoonup> nat) \<Rightarrow> game list \<Rightarrow> nat \<Rightarrow> client \<Rightarrow> nat \<times> client" where
  "sync_each calendar_id existing_events [] synced_count cl = (synced_count, cl)"
| "sync_each calendar_id existing_events (g # gs) synced_count cl =
     (case sync_game calendar_id existing_events g cl of
        (Inl err, cl') \<Rightarrow> sync_each calendar_id existing_events gs synced_count cl'
      | (Inr u, cl') \<Rightarrow> sync_each calendar_id existing_events gs (synced_count + 1) cl')"

text \<open>
  \<open>sync_games_to_calendar\<close>. \<open>now\<close> is the text of \<open>datetime.now().isoformat()\<close>.
  A failure of the service construction is re-raised; a failure of the listing is
  caught and leaves the index empty.
\<close>

definition sync_games_to_calendar ::
  "(string \<times> string) list \<Rightarrow> string \<Rightarrow> game list \<Rightarrow> string \<Rightarrow> client
     \<Rightarrow> (error + nat) \<times> client" where
  "sync_games_to_calendar credentials_dict calendar_id games now cl =
     (case build_calendar_service credentials_dict of
        Inl err \<Rightarrow> (Inl err, cl)
      | Inr service \<Rightarrow>
          (case events_list calendar_id (now @ ''Z'') cl of
             (events_result, cl1) \<Rightarrow>
               (let existing_events =
                      (case events_result of
                         Inl err \<Rightarrow> Map.empty
                       | Inr items \<Rightarrow> index_events items Map.empty)
                in (case sync_each calendar_id existing_events games 0 cl1 of
                      (synced_count, cl2) \<Rightarrow> (Inr synced_count, cl2)))))"

section \<open>The sync orchestrator\<close>

text \<open>
  The user store and the game store are keyed documents; they are modelled as a map
  and a list that never fail. A key of the user store is the text of the document's
  \<open>ObjectId\<close>. A user document carries the keys read by
  \<open>sync_calendar\<close> (\<open>google_credentials\<close>, \<open>calendar_id\<close>, \<open>favorite_teams\<close>) and
  the \<open>calendar_status\<close> sub-document written by \<open>update_calendar_status\<close> and
  \<open>update_last_sync\<close>.
\<close>

record user_doc =
  favorite_teams :: "string list"
  google_credentials :: "(string \<times> string) list option"
  user_calendar_id :: "string option"
  status_is_connected :: bool
  status_calendar_id :: "string option"
  status_credentials :: "(string \<times> string) list option"
  last_sync :: "(string \<times> nat) option"

text \<open>
  Modelled from the spec: the calendars of the account at the calendar service, which
  \<open>create_calendar\<close> lists and extends through \<open>googleapiclient\<close>. The account holds
  the entries of the calendar list in listing order; what the service decides alone is
  whether the listing fails, whether the creation fails, and the id it gives to a
  calendar created now.
\<close>

record calendar_entry =
  entry_id :: string
  entry_summary :: string

record calendar_account =
  calendar_items :: "calendar_entry list"
  list_fails :: bool
  insert_fails :: bool
  created_id :: string

record world =
  users :: "string \<rightharpoonup> user_doc"
  games_collection :: "game list"
  provider :: client
  account :: calendar_account

definition get_user_teams :: "string \<Rightarrow> (string \<rightharpoonup> user_doc) \<Rightarrow> string list" where
  "get_user_teams user_id us =
     (case us user_id of None \<Rightarrow> [] | Some u \<Rightarrow> favorite_teams u)"

text \<open>The query \<open>{"participating_teams": {"$in": team_id}}\<close>.\<close>

definition find_games_by_team_id :: "string list \<Rightarrow> game list \<Rightarrow> game list" where
  "find_games_by_team_id team_id gs =
     filter (\<lambda>g. list_ex (\<lambda>t. t \<in> set team_id) (participating_teams g)) gs"

definition update_calendar_status ::
  "string \<Rightarrow> string \<Rightarrow> (string \<times> string) list \<Rightarrow> (string \<rightharpoonup> user_doc)
     \<Rightarrow> bool \<times> (string \<rightharpoonup> user_doc)" where
  "update_calendar_status user_id cid credentials us =
     (case us user_id of
        None \<Rightarrow> (False, us)
      | Some u \<Rightarrow>
          (True, us(user_id \<mapsto> u\<lparr>status_is_connected := True,
                                  status_calendar_id := Some cid,
                                  status_credentials := Some credentials,
                                  last_sync := None\<rparr>)))"

text \<open>\<open>utcnow\<close> is the text of the timestamp taken by \<open>update_last_sync\<close>.\<close>

definition update_last_sync ::
  "string \<Rightarrow> nat \<Rightarrow> string \<Rightarrow> (string \<rightharpoonup> user_doc) \<Rightarrow> (string \<rightharpoonup> user_doc)" where
  "update_last_sync user_id sync_count utcnow us =
     (case us user_id of
        None \<Rightarrow> us
      | Some u \<Rightarrow> us(user_id \<mapsto> u\<lparr>last_sync := Some (utcnow, sync_count)\<rparr>))"

fun str_nat :: "nat \<Rightarrow> string" where
  "str_nat n =
     (if n < 10 then [''0123456789'' ! n]
      else str_nat (n div 10) @ [''0123456789'' ! (n mod 10)])"

datatype http_error = HTTPException nat string

record sync_response =
  calendar_id :: string
  synced_games_count :: nat
  message :: string

text \<open>
  \<open>sync_calendar\<close> (POST /calendar/sync). Any exception other than an
  \<open>HTTPException\<close> becomes status 500.
\<close>

definition sync_calendar ::
  "string \<Rightarrow> string \<Rightarrow> string \<Rightarrow> world \<Rightarrow> (http_error + sync_response) \<times> world" where
  "sync_calendar current_user now utcnow w =
     (case users w current_user of
        None \<Rightarrow> (Inl (HTTPException 400 ''Google Calendar not connected''), w)
      | Some user_data \<Rightarrow>
     (case google_credentials user_data of
        None \<Rightarrow> (Inl (HTTPException 400 ''Google Calendar not connected''), w)
      | Some credentials \<Rightarrow>
     (let teams_to_sync = get_user_teams current_user (users w) in
      if teams_to_sync = []
      then (Inl (HTTPException 400 ''No teams selected for syncing''), w)
      else
     (let games = find_games_by_team_id teams_to_sync (games_collection w) in
      if games = []
      then (Inr \<lparr>calendar_id = (case user_calendar_id user_data of None \<Rightarrow> [] | Some c \<Rightarrow> c),
                 synced_games_count = 0,
                 message = ''No games found for selected teams''\<rparr>, w)
      else
     (case user_calendar_id user_data of
        None \<Rightarrow> (Inl (HTTPException 500 ''Failed to sync calendar''), w)
      | Some cid \<Rightarrow>
     (case sync_games_to_calendar credentials cid games now (provider w) of
        (Inl err, cl') \<Rightarrow>
          (Inl (HTTPException 500 ''Failed to sync calendar''), w\<lparr>provider := cl'\<rparr>)
      | (Inr synced_count, cl') \<Rightarrow>
          (Inr \<lparr>calendar_id = cid,
                synced_games_count = synced_count,
                message = ''Successfully synced '' @ str_nat synced_count @
                          '' games to calendar''\<rparr>,
           w\<lparr>provider := cl',
              users := update_last_sync current_user synced_count utcnow (users w)\<rparr>)))))))"

datatype redirect = Setup_success | Setup_failed

text \<open>
  \<open>handle_oauth_callback\<close>. The exchange of the code at the provider
  (\<open>flow.fetch_token\<close>) is the argument: it raised, or it gave the credentials object.
  The dictionary built from it has the six keys; the attribute values are kept as text,
  nothing below reads them.
\<close>

record flow_credentials =
  token :: string
  refresh_token :: string
  token_uri :: string
  client_id :: string
  client_secret :: string
  scopes :: string

definition handle_oauth_callback ::
  "error + flow_credentials \<Rightarrow> error + (string \<times> string) list" where
  "handle_oauth_callback fetched =
     (case fetched of
        Inl err \<Rightarrow> Inl err
      | Inr credentials \<Rightarrow>
          Inr [(''token'', token credentials),
               (''refresh_token'', refresh_token credentials),
               (''token_uri'', token_uri credentials),
               (''client_id'', client_id credentials),
               (''client_secret'', client_secret credentials),
               (''scopes'', scopes credentials)])"

text \<open>
  \<open>create_calendar\<close>: the service is built first, then the calendar list is searched
  for the name, and only when no entry has it a calendar is created. Every exception
  is re-raised.
\<close>

definition create_calendar ::
  "(string \<times> string) list \<Rightarrow> string \<Rightarrow> calendar_account
     \<Rightarrow> (error + string) \<times> calendar_account" where
  "create_calendar credentials_dict calendar_name acct =
     (case build_calendar_service credentials_dict of
        Inl err \<Rightarrow> (Inl err, acct)
      | Inr service \<Rightarrow>
          if list_fails acct then (Inl HttpError, acct)
          else
            (case find (\<lambda>calendar_entry. entry_summary calendar_entry = calendar_name)
                    (calendar_items acct) of
               Some calendar_entry \<Rightarrow> (Inr (entry_id calendar_entry), acct)
             | None \<Rightarrow>
                 if insert_fails acct then (Inl HttpError, acct)
                 else (Inr (created_id acct),
                       acct\<lparr>calendar_items := calendar_items acct @
                               [\<lparr>entry_id = created_id acct,
                                 entry_summary = calendar_name\<rparr>]\<rparr>)))"

text \<open>
  \<open>handle_calendar_callback\<close> (GET /calendar/callback). \<open>state_data\<close> is what decoding
  the \<open>state\<close> parameter gives: nothing when the decoding raises or a key is missing,
  else the user id and the timestamp; \<open>utc_timestamp\<close> is the time of the request.
  Both times are counted in whole seconds. A state older than an hour, and any exception of the steps that follow,
  end in the redirect to the failure page.
\<close>

definition handle_calendar_callback ::
  "(string \<times> int) option \<Rightarrow> int \<Rightarrow> error + flow_credentials \<Rightarrow> string \<Rightarrow> string
     \<Rightarrow> world \<Rightarrow> redirect \<times> world" where
  "handle_calendar_callback state_data utc_timestamp fetched now utcnow w =
     (case state_data of
        None \<Rightarrow> (Setup_failed, w)
      | Some (user_id, timestamp) \<Rightarrow>
     (if utc_timestamp - timestamp > 3600 then (Setup_failed, w)
      else
     (case handle_oauth_callback fetched of
        Inl err \<Rightarrow> (Setup_failed, w)
      | Inr credentials \<Rightarrow>
     (case create_calendar credentials ''NFL Game Schedule'' (account w) of
        (Inl err, acct) \<Rightarrow> (Setup_failed, w\<lparr>account := acct\<rparr>)
      | (Inr cid, acct) \<Rightarrow>
     (case update_calendar_status user_id cid credentials (users w) of
        (setup_response, us1) \<Rightarrow>
     (let w1 = w\<lparr>account := acct, users := us1\<rparr> in
      if \<not> setup_response then (Setup_failed, w1)
      else
     (let user_teams = get_user_teams user_id us1 in
      if user_teams \<noteq> []
      then
        (let games = find_games_by_team_id user_teams (games_collection w1) in
        (case sync_games_to_calendar credentials cid games now (provider w1) of
           (Inl err, cl') \<Rightarrow> (Setup_failed, w1\<lparr>provider := cl'\<rparr>)
         | (Inr synced_count, cl') \<Rightarrow>
             (Setup_success,
              w1\<lparr>provider := cl',
                 users := update_last_sync user_id synced_count utcnow us1\<rparr>)))
      else (Setup_success, w1))))))))"

section \<open>Notions used in the statements\<close>

text \<open>The events of the games that the transform accepts, in input order.\<close>

definition transformed :: "game list \<Rightarrow> event list" where
  "transformed games =
     List.map_filter
       (\<lambda>g. case create_event_from_game g of Inl err \<Rightarrow> None | Inr ev \<Rightarrow> Some ev) games"

text \<open>
  The (calendar id, game id) pairs of the stored events that carry a tag, one entry
  per event.
\<close>

definition event_keys :: "cal_event list \<Rightarrow> (string \<times> string) list" where
  "event_keys evs =
     List.map_filter
       (\<lambda>e. case event_game_id (ev_body e) of
              None \<Rightarrow> None
            | Some gid \<Rightarrow> Some (ev_cal e, gid)) evs"

definition one_event_per_game :: "cal_event list \<Rightarrow> bool" where
  "one_event_per_game evs = distinct (event_keys evs)"

text \<open>Event ids are unique within a calendar and were all handed out already.\<close>

definition client_ok :: "client \<Rightarrow> bool" where
  "client_ok cl =
     (distinct (map (\<lambda>e. (ev_cal e, ev_id e)) (store cl)) \<and>
      list_all (\<lambda>e. ev_id e < fresh cl) (store cl))"

definition no_newline :: "string option \<Rightarrow> bool" where
  "no_newline s = (case s of None \<Rightarrow> True | Some t \<Rightarrow> CHR 0x0A \<notin> set t)"

definition away_name :: "game \<Rightarrow> string option" where
  "away_name g =
     (case teams g of None \<Rightarrow> None
      | Some tms \<Rightarrow> (case away tms of None \<Rightarrow> None | Some a \<Rightarrow> name a))"

definition home_name :: "game \<Rightarrow> string option" where
  "home_name g =
     (case teams g of None \<Rightarrow> None
      | Some tms \<Rightarrow> (case home tms of None \<Rightarrow> None | Some h \<Rightarrow> name h))"

text \<open>
  The games whose tag survives the description: the game id has no colon, no line
  break and no blank at either end, the other fields of the description have no line
  break, and the away team's name does not itself begin with the label.
\<close>

definition tag_stable :: "game \<Rightarrow> bool" where
  "tag_stable g =
     ((case game_id g of
         None \<Rightarrow> True
       | Some gid \<Rightarrow> CHR '':'' \<notin> set gid \<and> CHR 0x0A \<notin> set gid \<and> strip gid = gid) \<and>
      no_newline (week g) \<and> no_newline (season g) \<and>
      no_newline (away_name g) \<and> no_newline (home_name g) \<and>
      (case away_name g of None \<Rightarrow> True | Some a \<Rightarrow> \<not> startswith a ''Game ID:''))"

text \<open>
  The provider call that the loop issues for each game, in order: none for a game the
  transform refuses, an update when the index has the game id, a create otherwise.
\<close>

definition planned_calls :: "string \<Rightarrow> (string \<rightharpoonup> nat) \<Rightarrow> game list \<Rightarrow> call list" where
  "planned_calls cid existing_events games =
     List.map_filter
       (\<lambda>g. case create_event_from_game g of
              Inl err \<Rightarrow> None
            | Inr ev \<Rightarrow>
                (case game_id g of
                   None \<Rightarrow> None
                 | Some gid \<Rightarrow>
                     (case existing_events gid of
                        Some eid \<Rightarrow> Some (UpdateCall cid eid ev)
                      | None \<Rightarrow> Some (InsertCall cid ev)))) games"

text \<open>
  Among the next \<open>n\<close> provider calls, the number that do not fail.
\<close>

definition succeeded :: "client \<Rightarrow> nat \<Rightarrow> nat" where
  "succeeded cl n = length (filter (\<lambda>k. \<not> faults cl (length (calls cl) + k)) [0..<n])"

text \<open>Every event id held by the index names a stored event of the calendar.\<close>

definition targets_exist :: "string \<Rightarrow> (string \<rightharpoonup> nat) \<Rightarrow> client \<Rightarrow> bool" where
  "targets_exist cid idx cl =
     (\<forall>gid eid. idx gid = Some eid \<longrightarrow> list_ex (is_event cid eid) (store cl))"

text \<open>
  What the listing step of a run sees: the events the provider returns, the index built
  from them (empty when the listing fails), and the provider after the call.
\<close>

definition listed :: "string \<Rightarrow> string \<Rightarrow> client \<Rightarrow> cal_event list" where
  "listed cid now cl =
     filter (\<lambda>e. ev_cal e = cid \<and> in_window cl (now @ ''Z'') (ev_body e)) (store cl)"

definition listing_index :: "string \<Rightarrow> string \<Rightarrow> client \<Rightarrow> (string \<rightharpoonup> nat)" where
  "listing_index cid now cl =
     (if faults cl (length (calls cl)) then Map.empty
      else index_events (listed cid now cl) Map.empty)"

definition after_list :: "string \<Rightarrow> string \<Rightarrow> client \<Rightarrow> client" where
  "after_list cid now cl = cl\<lparr>calls := calls cl @ [ListCall cid (now @ ''Z'')]\<rparr>"

text \<open>
  Two properties of an index against the stored events of its calendar: an entry names
  an id already handed out, under which only events tagged with the entry's game id are
  stored; and a game id of the remaining games that has no entry tags no stored event.
\<close>

definition index_sound :: "string \<Rightarrow> (string \<rightharpoonup> nat) \<Rightarrow> client \<Rightarrow> bool" where
  "index_sound cid idx cl =
     (\<forall>gid eid. idx gid = Some eid \<longrightarrow>
        eid < fresh cl \<and>
        (\<forall>e\<in>set (store cl). is_event cid eid e \<longrightarrow> event_game_id (ev_body e) = Some gid))"

definition unindexed_absent ::
  "string \<Rightarrow> (string \<rightharpoonup> nat) \<Rightarrow> game list \<Rightarrow> client \<Rightarrow> bool" where
  "unindexed_absent cid idx gs cl =
     (\<forall>g\<in>set gs. \<forall>gid. game_id g = Some gid \<and> idx gid = None \<longrightarrow>
        (cid, gid) \<notin> set (event_keys (store cl)))"

text \<open>
  The calendar holds an event tagged with the game id whose body satisfies \<open>W\<close>
  (below: that a later listing returns it).
\<close>

definition has_event :: "string \<Rightarrow> (event \<Rightarrow> bool) \<Rightarrow> client \<Rightarrow> string \<Rightarrow> bool" where
  "has_event cid W cl gid =
     list_ex (\<lambda>e. ev_cal e = cid \<and> event_game_id (ev_body e) = Some gid \<and> W (ev_body e))
       (store cl)"

text \<open>
  The bodies sent by the update calls of a call sequence that name a given event, in
  the order of the calls.
\<close>

fun updates_to :: "string \<Rightarrow> nat \<Rightarrow> call list \<Rightarrow> event list" where
  "updates_to calendarId eventId [] = []"
| "updates_to calendarId eventId (UpdateCall c i body # cs) =
     (if c = calendarId \<and> i = eventId then body # updates_to calendarId eventId cs
      else updates_to calendarId eventId cs)"
| "updates_to calendarId eventId (_ # cs) = updates_to calendarId eventId cs"

text \<open>
  The three ways in which the transform fails: a key it reads is absent, the date or
  the time does not parse, or the end time falls after 31 December 9999.
\<close>

definition missing_key :: "game \<Rightarrow> bool" where
  "missing_key g =
     (game_date g = None \<or> game_time g = None \<or> away_name g = None \<or> home_name g = None \<or>
      week g = None \<or> season g = None \<or> game_id g = None)"

definition date_or_time_unparsed :: "game \<Rightarrow> bool" where
  "date_or_time_unparsed g =
     ((case game_date g of None \<Rightarrow> False | Some ds \<Rightarrow> strptime_date ds = None) \<or>
      (case game_time g of None \<Rightarrow> False | Some ts \<Rightarrow> strptime_time ts = None))"

definition end_time_overflows :: "game \<Rightarrow> bool" where
  "end_time_overflows g =
     (case game_date g of None \<Rightarrow> False | Some ds \<Rightarrow>
     (case game_time g of None \<Rightarrow> False | Some ts \<Rightarrow>
     (case strptime_time ts of None \<Rightarrow> False | Some t \<Rightarrow>
        strptime_date ds = Some (9999, 12, 31) \<and> 21 \<le> fst t)))"

fun is_insert :: "call \<Rightarrow> bool" where
  "is_insert (InsertCall c b) = True"
| "is_insert _ = False"

fun is_update :: "call \<Rightarrow> bool" where
  "is_update (UpdateCall c i b) = True"
| "is_update _ = False"

section \<open>Sample data\<close>

text \<open>The game of \<open>test_google_cal.py\<close> and the event it is turned into.\<close>

definition test_game :: game where
  "test_game =
     \<lparr>game_id = Some ''2024_W1_TEST'', season = Some ''2024'', week = Some ''1'',
      game_date = Some ''2024-09-08'', game_time = Some ''20:00'',
      teams = Some \<lparr>away = Some \<lparr>name = Some ''Las Vegas Raiders''\<rparr>,
                    home = Some \<lparr>name = Some ''Kansas City Chiefs''\<rparr>\<rparr>,
      participating_teams = [''1'', ''18'']\<rparr>"

definition sample_event :: "string \<Rightarrow> string \<Rightarrow> event" where
  "sample_event wk gid =
     \<lparr>summary = ''NFL: Las Vegas Raiders vs Kansas City Chiefs'',
      location = ''Kansas City Chiefs Stadium'',
      description = Some
        (''Week '' @ wk @ '' NFL Game'' @ [CHR 0x0A] @
         ''Las Vegas Raiders at Kansas City Chiefs'' @ [CHR 0x0A, CHR 0x0A] @
         ''Season: 2024'' @ [CHR 0x0A] @
         ''Game ID: '' @ gid),
      start_dateTime = ''2024-09-08T20:00:00'',
      start_timeZone = ''America/New_York'',
      end_dateTime = ''2024-09-08T23:00:00'',
      end_timeZone = ''America/New_York'',
      reminders_useDefault = False,
      reminders_overrides = [(''popup'', 60), (''email'', 1440)],
      colorId = ''2''\<rparr>"

definition test_event :: event where
  "test_event = sample_event ''1'' ''2024_W1_TEST''"

text \<open>The same game under other game ids and with another week.\<close>

definition game_with_id :: "string \<Rightarrow> game" where
  "game_with_id gid = test_game\<lparr>game_id := Some gid\<rparr>"

definition test_game_week_2 :: game where
  "test_game_week_2 = test_game\<lparr>week := Some ''2''\<rparr>"

text \<open>The sample game moved to the last evening a datetime can hold.\<close>

definition last_evening_game :: game where
  "last_evening_game = test_game\<lparr>game_date := Some ''9999-12-31'', game_time := Some ''22:00''\<rparr>"

definition test_credentials :: "(string \<times> string) list" where
  "test_credentials =
     [(''token'', ''t''), (''refresh_token'', ''r''), (''token_uri'', ''u''),
      (''client_id'', ''i''), (''client_secret'', ''s'')]"

text \<open>A provider with no event, no failure, and a listing that returns every event.\<close>

definition empty_client :: client where
  "empty_client =
     \<lparr>store = [], fresh = 0, calls = [], faults = (\<lambda>k. False),
      in_window = (\<lambda>timeMin ev. True)\<rparr>"

text \<open>The same provider when its first call, the listing, fails.\<close>

definition list_failing_client :: client where
  "list_failing_client = empty_client\<lparr>faults := (\<lambda>k. k = 0)\<rparr>"

text \<open>Three games, and the provider when the call for the second of them fails.\<close>

definition three_games :: "game list" where
  "three_games = [game_with_id ''G1'', game_with_id ''G2'', game_with_id ''G3'']"

definition second_item_failing_client :: client where
  "second_item_failing_client = empty_client\<lparr>faults := (\<lambda>k. k = 2)\<rparr>"

text \<open>A calendar that holds the event of the sample game twice.\<close>

definition duplicated_client :: client where
  "duplicated_client =
     empty_client\<lparr>store := [\<lparr>ev_cal = ''cal'', ev_id = 0, ev_body = test_event\<rparr>,
                             \<lparr>ev_cal = ''cal'', ev_id = 1, ev_body = test_event\<rparr>],
                   fresh := 2\<rparr>"

text \<open>
  A user who follows the home team of the sample game, with a connected calendar and
  an earlier sync on record; the same user with a credentials dictionary that lacks
  its keys; and the worlds they live in.
\<close>

definition sample_user :: user_doc where
  "sample_user =
     \<lparr>favorite_teams = [''18''], google_credentials = Some test_credentials,
      user_calendar_id = Some ''cal'', status_is_connected = True,
      status_calendar_id = Some ''cal'', status_credentials = Some test_credentials,
      last_sync = Some (''2024-08-01T09:00:00'', 5)\<rparr>"

definition sample_user_id :: string where
  "sample_user_id = ''65f1c0a2b3d4e5f6a7b8c9d0''"

definition sample_account :: calendar_account where
  "sample_account =
     \<lparr>calendar_items = [\<lparr>entry_id = ''primary'', entry_summary = ''Personal''\<rparr>],
      list_fails = False, insert_fails = False, created_id = ''cal''\<rparr>"

definition sample_world :: "user_doc \<Rightarrow> world" where
  "sample_world u =
     \<lparr>users = [sample_user_id \<mapsto> u], games_collection = [test_game],
      provider = empty_client, account = sample_account\<rparr>"

text \<open>The credentials object of a completed exchange and the dictionary made from it.\<close>

definition fetched_credentials :: flow_credentials where
  "fetched_credentials =
     \<lparr>token = ''t'', refresh_token = ''r'', token_uri = ''u'', client_id = ''i'',
      client_secret = ''s'', scopes = ''calendar''\<rparr>"

definition oauth_credentials :: "(string \<times> string) list" where
  "oauth_credentials =
     [(''token'', ''t''), (''refresh_token'', ''r''), (''token_uri'', ''u''),
      (''client_id'', ''i''), (''client_secret'', ''s''), (''scopes'', ''calendar'')]"

text \<open>
  An event whose description has two tag lines, and a list of two games whose second
  game has the game id of the sample game.
\<close>

definition tagged_twice :: event where
  "tagged_twice =
     test_event\<lparr>description := Some (''Week 1 NFL Game'' @ [CHR 0x0A] @ ''Game ID: A'' @
                                     [CHR 0x0A] @ ''Game ID: B'')\<rparr>"

definition duplicate_games :: "game list" where
  "duplicate_games = [game_with_id ''G1'', test_game_week_2]"

text \<open>Two games, and a calendar that already holds the event of the first of them.\<close>

definition two_games :: "game list" where
  "two_games = [game_with_id ''G1'', game_with_id ''G2'']"

definition first_game_client :: client where
  "first_game_client =
     empty_client\<lparr>store := [\<lparr>ev_cal = ''cal'', ev_id = 0, ev_body = sample_event ''1'' ''G1''\<rparr>],
                   fresh := 1\<rparr>"

text \<open>The provider after the two games were created in the calendar without events.\<close>

definition two_games_client :: client where
  "two_games_client =
     empty_client
       \<lparr>calls := [ListCall ''cal'' ''2024-09-01T12:00:00Z'',
                  InsertCall ''cal'' (sample_event ''1'' ''G1''),
                  InsertCall ''cal'' (sample_event ''1'' ''G2'')],
        store := [\<lparr>ev_cal = ''cal'', ev_id = 0, ev_body = sample_event ''1'' ''G1''\<rparr>,
                  \<lparr>ev_cal = ''cal'', ev_id = 1, ev_body = sample_event ''1'' ''G2''\<rparr>],
        fresh := 2\<rparr>"

text \<open>The provider after the two records that share a game id were created.\<close>

definition same_id_client :: client where
  "same_id_client =
     empty_client
       \<lparr>calls := [ListCall ''cal'' ''2024-09-01T12:00:00Z'',
                  InsertCall ''cal'' test_event,
                  InsertCall ''cal'' (sample_event ''2'' ''2024_W1_TEST'')],
        store := [\<lparr>ev_cal = ''cal'', ev_id = 0, ev_body = test_event\<rparr>,
                  \<lparr>ev_cal = ''cal'', ev_id = 1,
                   ev_body = sample_event ''2'' ''2024_W1_TEST''\<rparr>],
        fresh := 2\<rparr>"

declare str_nat.simps [simp del]

section \<open>Splitting and stripping\<close>

lemma split_on_nonempty: "split_on c s \<noteq> []"
  by (induction s) (auto split: list.splits)

lemma split_on_no_sep: "c \<notin> set s \<Longrightarrow> split_on c s = [s]"
  by (induction s) auto

lemma split_on_line: "c \<notin> set a \<Longrightarrow> split_on c (a @ c # b) = a # split_on c b"
  by (induction a) auto

lemma split_on_five:
  assumes "c \<notin> set l1" "c \<notin> set l2" "c \<notin> set l3" "c \<notin> set l4"
  shows "split_on c (l1 @ [c] @ l2 @ [c, c] @ l3 @ [c] @ l4) = [l1, l2, [], l3, l4]"
proof -
  have "split_on c (l3 @ c # l4) = [l3, l4]"
    using assms by (simp add: split_on_line split_on_no_sep)
  then have "split_on c ([] @ c # l3 @ c # l4) = [[], l3, l4]"
    by simp
  then have "split_on c (l2 @ c # c # l3 @ c # l4) = [l2, [], l3, l4]"
    using assms(2) split_on_line [of c l2 "c # l3 @ c # l4"] by simp
  then have "split_on c (l1 @ c # l2 @ c # c # l3 @ c # l4) = [l1, l2, [], l3, l4]"
    using assms(1) by (simp add: split_on_line)
  then show ?thesis by simp
qed

text \<open>A line that starts with the label splits at its colon into at least two pieces.\<close>

lemma split_on_tag_line:
  assumes "startswith line ''Game ID:''"
  shows "2 \<le> length (split_on CHR '':'' line)"
proof -
  define r where "r = drop 8 line"
  have l8: "length ''Game ID:'' = 8" by simp
  from assms have "take 8 line = ''Game ID:''"
    unfolding startswith_def by (simp only: l8)
  then have "''Game ID:'' @ r = line"
    unfolding r_def by (metis append_take_drop_id)
  then have line: "line = ''Game ID'' @ CHR '':'' # r"
    by simp
  have "CHR '':'' \<notin> set ''Game ID''" by simp
  then have "split_on CHR '':'' (''Game ID'' @ CHR '':'' # r) = ''Game ID'' # split_on CHR '':'' r"
    by (rule split_on_line)
  then have "length (split_on CHR '':'' (''Game ID'' @ CHR '':'' # r)) = Suc (length (split_on CHR '':'' r))"
    by simp
  moreover have "0 < length (split_on CHR '':'' r)"
    using split_on_nonempty [of "CHR '':''" r] by simp
  ultimately have "2 \<le> length (split_on CHR '':'' (''Game ID'' @ CHR '':'' # r))"
    by linarith
  then show ?thesis by (subst line)
qed

lemma py_isspace_blank: "py_isspace CHR '' ''"
  by (simp add: py_isspace_def)

lemma strip_blank: "strip (CHR '' '' # s) = strip s"
  by (simp add: strip_def py_isspace_blank)

lemma tag_of_line_label:
  assumes "CHR '':'' \<notin> set gid"
  shows "tag_of_line (''Game ID: '' @ gid) = strip gid"
proof -
  have "split_on CHR '':'' (''Game ID'' @ CHR '':'' # CHR '' '' # gid)
          = [''Game ID'', CHR '' '' # gid]"
    using assms by (subst split_on_line) (simp_all add: split_on_no_sep)
  then show ?thesis by (simp add: tag_of_line_def strip_blank)
qed

lemma startswith_label: "startswith (''Game ID: '' @ gid) ''Game ID:''"
  by (simp add: startswith_def)

lemma matchup_line_no_label:
  assumes "\<not> startswith a ''Game ID:''"
  shows "\<not> startswith (a @ '' at '' @ h) ''Game ID:''"
proof
  assume "startswith (a @ '' at '' @ h) ''Game ID:''"
  moreover have l8: "length ''Game ID:'' = 8" by simp
  ultimately have eq: "take 8 (a @ '' at '' @ h) = ''Game ID:''"
    unfolding startswith_def by (simp only: l8)
  show False
  proof (cases "8 \<le> length a")
    case True
    then have "take 8 (a @ '' at '' @ h) = take 8 a" by simp
    with eq have "take 8 a = ''Game ID:''" by (simp only:)
    then have "startswith a ''Game ID:''" unfolding startswith_def l8 .
    with assms show False by blast
  next
    case False
    have nth: "\<And>i. i < 8 \<Longrightarrow> (a @ '' at '' @ h) ! i = ''Game ID:'' ! i"
      using eq by (metis nth_take)
    have "(a @ '' at '' @ h) ! length a = CHR '' ''"
      by (simp add: nth_append)
    with nth [of "length a"] False have l: "''Game ID:'' ! length a = CHR '' ''" by simp
    from False l have len: "length a = 4"
      by (auto simp: nth_Cons not_le split: nat.splits)
    have "(a @ '' at '' @ h) ! 5 = CHR ''a''"
      using len by (simp add: nth_append)
    with nth [of 5] show False by simp
  qed
qed

section \<open>The transform\<close>

lemmas parse_defs =
  strptime_date_def strptime_time_def expect_def is_digit_def digit_val_def
  days_in_month_def is_leap_def combine_def plus_3_hours_def isoformat_def pad2_def pad4_def

lemma create_event_fields:
  assumes "create_event_from_game g = Inr ev"
  shows "\<exists>wk an hn sn gid. week g = Some wk \<and> away_name g = Some an \<and> home_name g = Some hn
           \<and> season g = Some sn \<and> game_id g = Some gid
           \<and> description ev = Some (''Week '' @ wk @ '' NFL Game'' @ [CHR 0x0A] @
                an @ '' at '' @ hn @ [CHR 0x0A, CHR 0x0A] @
                ''Season: '' @ sn @ [CHR 0x0A] @ ''Game ID: '' @ gid)"
  using assms
  by (auto simp: create_event_from_game_def Let_def away_name_def home_name_def
           split: option.splits)

lemma event_game_id_stable:
  assumes st: "tag_stable g" and ev: "create_event_from_game g = Inr ev"
  shows "event_game_id ev = game_id g"
proof -
  from create_event_fields [OF ev] obtain wk an hn sn gid where
    f: "week g = Some wk" "away_name g = Some an" "home_name g = Some hn"
       "season g = Some sn" "game_id g = Some gid" and
    d: "description ev = Some (''Week '' @ wk @ '' NFL Game'' @ [CHR 0x0A] @
                an @ '' at '' @ hn @ [CHR 0x0A, CHR 0x0A] @
                ''Season: '' @ sn @ [CHR 0x0A] @ ''Game ID: '' @ gid)"
    by blast
  from st f have nl: "CHR 0x0A \<notin> set wk" "CHR 0x0A \<notin> set an" "CHR 0x0A \<notin> set hn"
      "CHR 0x0A \<notin> set sn" "CHR 0x0A \<notin> set gid"
    and col: "CHR '':'' \<notin> set gid" and sp: "strip gid = gid"
    and lab: "\<not> startswith an ''Game ID:''"
    by (simp_all add: tag_stable_def no_newline_def)
  define l1 where "l1 = ''Week '' @ wk @ '' NFL Game''"
  define l2 where "l2 = an @ '' at '' @ hn"
  define l3 where "l3 = ''Season: '' @ sn"
  define l4 where "l4 = ''Game ID: '' @ gid"
  have dd: "description ev =
      Some (l1 @ [CHR 0x0A] @ l2 @ [CHR 0x0A, CHR 0x0A] @ l3 @ [CHR 0x0A] @ l4)"
    by (simp add: d l1_def l2_def l3_def l4_def)
  have "CHR 0x0A \<notin> set l1" "CHR 0x0A \<notin> set l2" "CHR 0x0A \<notin> set l3" "CHR 0x0A \<notin> set l4"
    using nl by (simp_all add: l1_def l2_def l3_def l4_def)
  then have sp5:
    "split_on (CHR 0x0A) (l1 @ [CHR 0x0A] @ l2 @ [CHR 0x0A, CHR 0x0A] @ l3 @ [CHR 0x0A] @ l4)
       = [l1, l2, [], l3, l4]"
    by (rule split_on_five)
  have n1: "\<not> startswith l1 ''Game ID:''" by (simp add: l1_def startswith_def)
  have n2: "\<not> startswith l2 ''Game ID:''"
    unfolding l2_def using lab by (rule matchup_line_no_label)
  have n0: "\<not> startswith [] ''Game ID:''" by (simp add: startswith_def)
  have n3: "\<not> startswith l3 ''Game ID:''" by (simp add: l3_def startswith_def)
  have y4: "startswith l4 ''Game ID:''" unfolding l4_def by (rule startswith_label)
  have e1: "event_game_id ev = scan_lines [l1, l2, [], l3, l4]"
    unfolding event_game_id_def dd by (simp only: option.case sp5)
  have e2: "scan_lines [l1, l2, [], l3, l4] = Some (tag_of_line l4)"
    using n1 n2 n0 n3 y4 by simp
  have e3: "tag_of_line l4 = gid"
    unfolding l4_def using tag_of_line_label [OF col] sp by (simp only:)
  show ?thesis by (simp only: e1 e2 e3 f)
qed

text \<open>The transform on the sample games.\<close>

lemma strptime_date_sample: "strptime_date ''2024-09-08'' = Some (2024, 9, 8)"
  by (simp add: parse_defs)

lemma strptime_time_sample: "strptime_time ''20:00'' = Some (20, 0)"
  by (simp add: parse_defs)

lemma create_event_game_with_id:
  "create_event_from_game (game_with_id gid) = Inr (sample_event ''1'' gid)"
  by (simp add: create_event_from_game_def game_with_id_def test_game_def sample_event_def
        strptime_date_sample strptime_time_sample
        combine_def plus_3_hours_def isoformat_def pad2_def pad4_def)

lemma game_with_id_test_game: "game_with_id ''2024_W1_TEST'' = test_game"
  by (simp add: game_with_id_def test_game_def)

lemma create_event_test_game: "create_event_from_game test_game = Inr test_event"
  using create_event_game_with_id [of "''2024_W1_TEST''"]
  by (simp only: game_with_id_test_game test_event_def)

lemma create_event_week_2:
  "create_event_from_game test_game_week_2 = Inr (sample_event ''2'' ''2024_W1_TEST'')"
  by (simp add: create_event_from_game_def test_game_week_2_def test_game_def sample_event_def
        strptime_date_sample strptime_time_sample
        combine_def plus_3_hours_def isoformat_def pad2_def pad4_def)

lemma newline_neq [simp]:
  "CHR 0x0A \<noteq> CHR ''G''" "CHR 0x0A \<noteq> CHR ''W''" "CHR 0x0A \<noteq> CHR ''L''" "CHR 0x0A \<noteq> CHR ''S''"
  by simp_all

lemma event_game_id_sample:
  assumes "CHR 0x0A \<notin> set wk" "CHR 0x0A \<notin> set gid"
  shows "event_game_id (sample_event wk gid) = Some (tag_of_line (''Game ID: '' @ gid))"
proof -
  have "split_on (CHR 0x0A)
          ((''Week '' @ wk @ '' NFL Game'') @ [CHR 0x0A] @
           ''Las Vegas Raiders at Kansas City Chiefs'' @ [CHR 0x0A, CHR 0x0A] @
           ''Season: 2024'' @ [CHR 0x0A] @ (''Game ID: '' @ gid))
        = [''Week '' @ wk @ '' NFL Game'', ''Las Vegas Raiders at Kansas City Chiefs'', [],
           ''Season: 2024'', ''Game ID: '' @ gid]"
    by (rule split_on_five) (use assms in simp_all)
  then show ?thesis
    by (simp add: event_game_id_def sample_event_def startswith_def)
qed

lemma tag_stable_game_with_id:
  "tag_stable (game_with_id gid) =
     (CHR '':'' \<notin> set gid \<and> CHR 0x0A \<notin> set gid \<and> strip gid = gid)"
  by (simp add: tag_stable_def game_with_id_def test_game_def no_newline_def
        away_name_def home_name_def startswith_def)

lemma strip_sample_id: "strip ''2024_W1_TEST'' = ''2024_W1_TEST''"
  by (simp add: strip_def py_isspace_def)

lemma tag_stable_test_game: "tag_stable test_game"
  using tag_stable_game_with_id [of "''2024_W1_TEST''"]
  by (simp add: game_with_id_test_game strip_sample_id)

section \<open>Tag round trip\<close>

text \<open>
  C6 (defect in the code). The transform writes the line \<open>Game ID: <game_id>\<close> and the
  reconciler reads it back with \<open>line.split(':')[1].strip()\<close>, which keeps only what
  stands between the first and the second colon. The game id \<open>2024:W1\<close> is accepted
  by the transform, and the description of its event is read back as \<open>2024\<close>: the
  round trip does not recover the game id.
\<close>

theorem tag_round_trip_lost_at_colon:
  "create_event_from_game (game_with_id ''2024:W1'') = Inr (sample_event ''1'' ''2024:W1'') \<and>
   event_game_id (sample_event ''1'' ''2024:W1'') = Some ''2024'' \<and>
   game_id (game_with_id ''2024:W1'') = Some ''2024:W1''"
proof -
  have "event_game_id (sample_event ''1'' ''2024:W1'') = Some ''2024''"
    by (simp add: event_game_id_sample tag_of_line_def strip_def py_isspace_def)
  moreover have "game_id (game_with_id ''2024:W1'') = Some ''2024:W1''"
    by (simp add: game_with_id_def)
  ultimately show ?thesis
    by (simp only: create_event_game_with_id simp_thms)
qed

text \<open>
  Where the tag is stable (see \<open>tag_stable\<close>) the round trip holds; this is lemma
  \<open>event_game_id_stable\<close>, here at the sample game.
\<close>

lemma event_game_id_test_event: "event_game_id test_event = Some ''2024_W1_TEST''"
proof -
  have "game_id test_game = Some ''2024_W1_TEST''"
    by (simp add: test_game_def)
  with event_game_id_stable [OF tag_stable_test_game create_event_test_game]
  show ?thesis by (simp only:)
qed

section \<open>When the transform fails\<close>

lemma digit_val_le: "is_digit c \<Longrightarrow> digit_val c \<le> 9"
  by (auto simp: is_digit_def digit_val_def)

lemma re_Y_range: "re_Y s = Some (y, r) \<Longrightarrow> y \<le> 9999"
  by (induction s rule: re_Y.induct) (auto dest!: digit_val_le split: if_splits)

lemma re_m_range: "re_m s = Some (m, r) \<Longrightarrow> 1 \<le> m \<and> m \<le> 12"
  by (induction s rule: re_m.induct) (auto simp: digit_val_def split: if_splits)

lemma re_d_range: "re_d s = Some (d, r) \<Longrightarrow> 1 \<le> d"
  by (induction s rule: re_d.induct) (auto simp: digit_val_def split: if_splits)

lemma strptime_date_range:
  assumes "strptime_date s = Some (y, m, d)"
  shows "1 \<le> y \<and> y \<le> 9999 \<and> 1 \<le> m \<and> m \<le> 12 \<and> 1 \<le> d \<and> d \<le> days_in_month y m"
proof -
  from assms obtain r1 r2 r3 r4 where
    p: "re_Y s = Some (y, r1)" "re_m r2 = Some (m, r3)" "re_d r4 = Some (d, [])"
    and c: "0 < y" "\<not> days_in_month y m < d"
    by (auto simp: strptime_date_def split: option.splits if_splits)
  from re_Y_range [OF p(1)] re_m_range [OF p(2)] re_d_range [OF p(3)] c
  show ?thesis by simp
qed

lemma days_in_december: "days_in_month y 12 = 31"
  by (simp add: days_in_month_def)

lemma plus_3_hours_None:
  assumes "strptime_date s = Some (y, m, d)"
  shows "plus_3_hours (combine (y, m, d) t) = None \<longleftrightarrow>
           (y, m, d) = (9999, 12, 31) \<and> 21 \<le> fst t"
proof -
  from strptime_date_range [OF assms]
  have r: "y \<le> 9999" "m \<le> 12" "d \<le> days_in_month y m" by simp_all
  show ?thesis
  proof (cases "m = 12")
    case True
    with r show ?thesis
      by (auto simp: plus_3_hours_def combine_def days_in_december)
  next
    case False
    with r show ?thesis
      by (auto simp: plus_3_hours_def combine_def)
  qed
qed

text \<open>
  C8 (corrected). The transform fails exactly when a key it reads is absent (the date,
  the time, a team or its name, the week, the season, the game id), or the date or the
  time does not parse in its literal format, or the start is on 31 December 9999 at
  21:00 or later, so that the end time cannot be represented; for every other game it
  returns an event.
\<close>

theorem transform_fails_exactly_when:
  "(\<exists>err. create_event_from_game g = Inl err) \<longleftrightarrow>
     (missing_key g \<or> date_or_time_unparsed g \<or> end_time_overflows g)"
proof (cases "missing_key g \<or> date_or_time_unparsed g")
  case True
  then show ?thesis
    by (auto simp: create_event_from_game_def missing_key_def date_or_time_unparsed_def
          away_name_def home_name_def Let_def split: option.splits)
next
  case False
  then obtain ds ts y m d t wk sn gid an hn where
    f: "game_date g = Some ds" "game_time g = Some ts" "strptime_date ds = Some (y, m, d)"
       "strptime_time ts = Some t" "week g = Some wk" "season g = Some sn"
       "game_id g = Some gid" "away_name g = Some an" "home_name g = Some hn"
    by (auto simp: missing_key_def date_or_time_unparsed_def split: option.splits)
  from f(8,9) obtain tms a h where
    tm: "teams g = Some tms" "away tms = Some a" "name a = Some an"
        "home tms = Some h" "name h = Some hn"
    by (auto simp: away_name_def home_name_def split: option.splits)
  have "(\<exists>err. create_event_from_game g = Inl err) \<longleftrightarrow>
          plus_3_hours (combine (y, m, d) t) = None"
    by (auto simp: create_event_from_game_def f tm Let_def split: option.splits)
  also have "\<dots> \<longleftrightarrow> (y, m, d) = (9999, 12, 31) \<and> 21 \<le> fst t"
    by (rule plus_3_hours_None [OF f(3)])
  also have "\<dots> \<longleftrightarrow> end_time_overflows g"
    by (simp add: end_time_overflows_def f)
  finally show ?thesis using False by simp
qed

text \<open>
  As stated, the claim fails at a game whose date and time parse and whose team names
  are present: the game on 31 December 9999 at 22:00 is refused with \<open>OverflowError\<close>.
\<close>

theorem transform_fails_counterexample:
  "create_event_from_game last_evening_game = Inl OverflowError \<and>
   game_date last_evening_game = Some ''9999-12-31'' \<and>
   strptime_date ''9999-12-31'' = Some (9999, 12, 31) \<and>
   game_time last_evening_game = Some ''22:00'' \<and>
   strptime_time ''22:00'' = Some (22, 0) \<and>
   away_name last_evening_game = Some ''Las Vegas Raiders'' \<and>
   home_name last_evening_game = Some ''Kansas City Chiefs''"
proof -
  have "create_event_from_game last_evening_game = Inl OverflowError"
    by (simp add: create_event_from_game_def last_evening_game_def test_game_def parse_defs)
  moreover have "strptime_date ''9999-12-31'' = Some (9999, 12, 31)"
    by (simp add: parse_defs)
  moreover have "strptime_time ''22:00'' = Some (22, 0)"
    by (simp add: parse_defs)
  ultimately show ?thesis
    by (simp add: last_evening_game_def test_game_def away_name_def home_name_def)
qed

section \<open>Provider calls and the loop\<close>

lemma create_event_game_id:
  "create_event_from_game g = Inr ev \<Longrightarrow> \<exists>gid. game_id g = Some gid"
  using create_event_fields by blast

lemma events_update_frame:
  assumes "events_update cid eid body cl = (r, cl')"
  shows "calls cl' = calls cl @ [UpdateCall cid eid body]" "faults cl' = faults cl"
    "in_window cl' = in_window cl" "fresh cl' = fresh cl"
  using assms by (auto simp: events_update_def Let_def split: if_splits)

lemma events_insert_frame:
  assumes "events_insert cid body cl = (r, cl')"
  shows "calls cl' = calls cl @ [InsertCall cid body]" "faults cl' = faults cl"
    "in_window cl' = in_window cl"
  using assms by (auto simp: events_insert_def Let_def split: if_splits)

lemma events_update_result:
  assumes "events_update cid eid body cl = (r, cl')"
  shows "(r = Inr ()) = (\<not> faults cl (length (calls cl)) \<and> list_ex (is_event cid eid) (store cl))"
  using assms by (auto simp: events_update_def Let_def split: if_splits)

lemma events_insert_result:
  assumes "events_insert cid body cl = (r, cl')"
  shows "(\<exists>i. r = Inr i) = (\<not> faults cl (length (calls cl)))"
  using assms by (auto simp: events_insert_def Let_def split: if_splits)

text \<open>The three ways through the loop body.\<close>

lemma sync_game_cases:
  obtains (refused) err where "create_event_from_game g = Inl err"
      "sync_game cid idx g cl = (Inl err, cl)"
  | (update) ev gid eid where "create_event_from_game g = Inr ev" "game_id g = Some gid"
      "idx gid = Some eid" "sync_game cid idx g cl = events_update cid eid ev cl"
  | (insert) ev gid where "create_event_from_game g = Inr ev" "game_id g = Some gid"
      "idx gid = None"
      "sync_game cid idx g cl =
         (case events_insert cid ev cl of (Inl err, cl') \<Rightarrow> (Inl err, cl')
          | (Inr new_id, cl') \<Rightarrow> (Inr (), cl'))"
proof (cases "create_event_from_game g")
  case (Inl err)
  then show ?thesis using refused by (simp add: sync_game_def)
next
  case (Inr ev)
  then obtain gid where gid: "game_id g = Some gid"
    using create_event_game_id by blast
  show ?thesis
  proof (cases "idx gid")
    case None
    with Inr gid show ?thesis using insert by (simp add: sync_game_def)
  next
    case (Some eid)
    with Inr gid show ?thesis using update by (simp add: sync_game_def)
  qed
qed

lemma planned_calls_Nil: "planned_calls cid idx [] = []"
  by (simp add: planned_calls_def)

lemma planned_calls_refused:
  "create_event_from_game g = Inl err \<Longrightarrow> planned_calls cid idx (g # gs) = planned_calls cid idx gs"
  by (simp add: planned_calls_def)

lemma planned_calls_update:
  "create_event_from_game g = Inr ev \<Longrightarrow> game_id g = Some gid \<Longrightarrow> idx gid = Some eid \<Longrightarrow>
   planned_calls cid idx (g # gs) = UpdateCall cid eid ev # planned_calls cid idx gs"
  by (simp add: planned_calls_def)

lemma planned_calls_insert:
  "create_event_from_game g = Inr ev \<Longrightarrow> game_id g = Some gid \<Longrightarrow> idx gid = None \<Longrightarrow>
   planned_calls cid idx (g # gs) = InsertCall cid ev # planned_calls cid idx gs"
  by (simp add: planned_calls_def)

lemma sync_game_frame:
  assumes "sync_game cid idx g cl = (r, cl')"
  shows "calls cl' = calls cl @ planned_calls cid idx [g]" "faults cl' = faults cl"
    "in_window cl' = in_window cl"
proof -
  have "calls cl' = calls cl @ planned_calls cid idx [g] \<and> faults cl' = faults cl \<and>
    in_window cl' = in_window cl"
  proof (cases rule: sync_game_cases [where g = g and cid = cid and idx = idx and cl = cl])
    case (refused err)
    with assms show ?thesis by (simp add: planned_calls_refused planned_calls_Nil)
  next
    case (update ev gid eid)
    with assms have "events_update cid eid ev cl = (r, cl')" by simp
    from events_update_frame [OF this] update show ?thesis
      by (simp add: planned_calls_update planned_calls_Nil)
  next
    case (insert ev gid)
    obtain r0 cl0 where i: "events_insert cid ev cl = (r0, cl0)" by force
    with insert assms have "cl' = cl0" by (auto split: sum.splits)
    with events_insert_frame [OF i] insert show ?thesis
      by (simp add: planned_calls_insert planned_calls_Nil)
  qed
  then show "calls cl' = calls cl @ planned_calls cid idx [g]" "faults cl' = faults cl"
    "in_window cl' = in_window cl" by simp_all
qed

lemma planned_calls_Cons:
  "planned_calls cid idx (g # gs) = planned_calls cid idx [g] @ planned_calls cid idx gs"
  by (simp add: planned_calls_def split: option.splits)

lemma sync_each_frame:
  "sync_each cid idx games c cl = (n, cl') \<Longrightarrow>
   calls cl' = calls cl @ planned_calls cid idx games \<and> faults cl' = faults cl \<and>
   in_window cl' = in_window cl"
proof (induction games arbitrary: c cl)
  case Nil
  then show ?case by (simp add: planned_calls_Nil)
next
  case (Cons g gs)
  obtain r cl1 where s: "sync_game cid idx g cl = (r, cl1)" by force
  from Cons.prems s obtain c1 where "sync_each cid idx gs c1 cl1 = (n, cl')"
    by (auto split: sum.splits)
  from Cons.IH [OF this] sync_game_frame [OF s] show ?case
    by (simp add: planned_calls_Cons [of cid idx g gs])
qed

lemma count_upt_Suc:
  "length (filter P [0..<Suc n]) = (if P 0 then 1 else 0) + length (filter (\<lambda>k. P (Suc k)) [0..<n])"
proof -
  have "[0..<Suc n] = 0 # map Suc [0..<n]"
    by (simp add: upt_conv_Cons map_Suc_upt del: upt_Suc)
  then show ?thesis
    by (simp add: filter_map comp_def del: upt_Suc)
qed

lemma succeeded_0: "succeeded cl 0 = 0"
  by (simp add: succeeded_def)

lemma succeeded_Suc:
  assumes "faults cl1 = faults cl" "length (calls cl1) = Suc (length (calls cl))"
  shows "succeeded cl (Suc n) = (if faults cl (length (calls cl)) then 0 else 1) + succeeded cl1 n"
  unfolding succeeded_def using assms by (simp add: count_upt_Suc del: upt_Suc)

lemma list_ex_is_event_map:
  assumes "\<And>e. ev_cal (f e) = ev_cal e \<and> ev_id (f e) = ev_id e"
  shows "list_ex (is_event c i) (map f xs) = list_ex (is_event c i) xs"
  by (induction xs) (simp_all add: is_event_def assms)

lemma events_update_keeps_events:
  assumes "events_update cid eid body cl = (r, cl')" "list_ex (is_event c i) (store cl)"
  shows "list_ex (is_event c i) (store cl')"
proof (cases "r = Inr ()")
  case True
  with assms(1) have "store cl' =
      map (\<lambda>e. if is_event cid eid e then e\<lparr>ev_body := body\<rparr> else e) (store cl)"
    by (auto simp: events_update_def Let_def split: if_splits)
  with assms(2) show ?thesis by (simp add: list_ex_is_event_map)
next
  case False
  with assms(1) have "store cl' = store cl"
    by (auto simp: events_update_def Let_def split: if_splits)
  with assms(2) show ?thesis by simp
qed

lemma events_insert_keeps_events:
  assumes "events_insert cid body cl = (r, cl')" "list_ex (is_event c i) (store cl)"
  shows "list_ex (is_event c i) (store cl')"
  using assms
  by (auto simp: events_insert_def Let_def list_ex_iff split: if_splits)

lemma sync_game_keeps_events:
  assumes "sync_game cid idx g cl = (r, cl')" "list_ex (is_event c i) (store cl)"
  shows "list_ex (is_event c i) (store cl')"
proof (cases rule: sync_game_cases [where g = g and cid = cid and idx = idx and cl = cl])
  case (refused err)
  with assms show ?thesis by simp
next
  case (update ev gid eid)
  with assms have "events_update cid eid ev cl = (r, cl')" by simp
  from events_update_keeps_events [OF this assms(2)] show ?thesis .
next
  case (insert ev gid)
  obtain r0 cl0 where i: "events_insert cid ev cl = (r0, cl0)" by force
  with insert assms have "cl' = cl0" by (auto split: sum.splits)
  with events_insert_keeps_events [OF i assms(2)] show ?thesis by simp
qed

lemma sync_game_targets:
  assumes "sync_game cid idx g cl = (r, cl')" "targets_exist cid idx cl"
  shows "targets_exist cid idx cl'"
  using assms unfolding targets_exist_def by (blast intro: sync_game_keeps_events)

text \<open>Whether the loop body counts the game.\<close>

lemma sync_game_counted:
  assumes s: "sync_game cid idx g cl = (r, cl')" and t: "targets_exist cid idx cl"
    and p: "planned_calls cid idx [g] = [c]"
  shows "(\<exists>u. r = Inr u) = (\<not> faults cl (length (calls cl)))"
proof (cases rule: sync_game_cases [where g = g and cid = cid and idx = idx and cl = cl])
  case (refused err)
  with p show ?thesis by (simp add: planned_calls_refused planned_calls_Nil)
next
  case (update ev gid eid)
  with s have u: "events_update cid eid ev cl = (r, cl')" by simp
  from t update(3) have "list_ex (is_event cid eid) (store cl)"
    unfolding targets_exist_def by blast
  with events_update_result [OF u] show ?thesis by auto
next
  case (insert ev gid)
  obtain r0 cl0 where i: "events_insert cid ev cl = (r0, cl0)" by force
  with insert s have "(\<exists>u. r = Inr u) = (\<exists>k. r0 = Inr k)" by (auto split: sum.splits)
  with events_insert_result [OF i] show ?thesis by simp
qed

lemma planned_calls_single: "planned_calls cid idx [g] = [] \<or> (\<exists>c. planned_calls cid idx [g] = [c])"
  by (simp add: planned_calls_def split: sum.splits option.splits)

lemma sync_game_not_counted:
  assumes s: "sync_game cid idx g cl = (r, cl')" and p: "planned_calls cid idx [g] = []"
  shows "\<exists>err. r = Inl err" "cl' = cl"
proof -
  have "(\<exists>err. r = Inl err) \<and> cl' = cl"
  proof (cases rule: sync_game_cases [where g = g and cid = cid and idx = idx and cl = cl])
    case (refused err)
    with s show ?thesis by auto
  next
    case (update ev gid eid)
    with p show ?thesis by (simp add: planned_calls_update)
  next
    case (insert ev gid)
    with p show ?thesis by (simp add: planned_calls_insert)
  qed
  then show "\<exists>err. r = Inl err" "cl' = cl" by simp_all
qed

lemma sync_each_count:
  "targets_exist cid idx cl \<Longrightarrow>
   fst (sync_each cid idx games c cl) = c + succeeded cl (length (planned_calls cid idx games))"
proof (induction games arbitrary: c cl)
  case Nil
  then show ?case by (simp add: planned_calls_Nil succeeded_0)
next
  case (Cons g gs)
  obtain r cl1 where s: "sync_game cid idx g cl = (r, cl1)" by force
  have t1: "targets_exist cid idx cl1" by (rule sync_game_targets [OF s Cons.prems])
  note ih = Cons.IH [OF t1]
  from planned_calls_single [of cid idx g] show ?case
  proof
    assume p: "planned_calls cid idx [g] = []"
    from sync_game_not_counted [OF s p] obtain err where "r = Inl err" "cl1 = cl" by blast
    with s ih [of c] p show ?thesis
      by (simp add: planned_calls_Cons [of cid idx g gs])
  next
    assume "\<exists>k. planned_calls cid idx [g] = [k]"
    then obtain k where p: "planned_calls cid idx [g] = [k]" ..
    from sync_game_frame [OF s] p
    have f: "faults cl1 = faults cl" "length (calls cl1) = Suc (length (calls cl))" by simp_all
    have len: "length (planned_calls cid idx (g # gs)) = Suc (length (planned_calls cid idx gs))"
      by (simp add: planned_calls_Cons [of cid idx g gs] p)
    show ?thesis
    proof (cases r)
      case (Inl err)
      with sync_game_counted [OF s Cons.prems p] have "faults cl (length (calls cl))" by simp
      with s Inl ih [of c] show ?thesis
        by (simp add: len succeeded_Suc [OF f])
    next
      case (Inr u)
      with sync_game_counted [OF s Cons.prems p] have "\<not> faults cl (length (calls cl))" by simp
      with s Inr ih [of "c + 1"] show ?thesis
        by (simp add: len succeeded_Suc [OF f])
    qed
  qed
qed

section \<open>A run of the reconciler\<close>

lemma build_calendar_service_test [simp]: "build_calendar_service test_credentials = Inr ()"
  by (simp add: build_calendar_service_def test_credentials_def)

lemma events_list_eq:
  "events_list cid (now @ ''Z'') cl =
     (if faults cl (length (calls cl)) then Inl HttpError else Inr (listed cid now cl),
      after_list cid now cl)"
  by (simp add: events_list_def listed_def after_list_def Let_def)

lemma sync_games_to_calendar_eq:
  assumes "build_calendar_service creds = Inr ()"
  shows "sync_games_to_calendar creds cid games now cl =
     (Inr (fst (sync_each cid (listing_index cid now cl) games 0 (after_list cid now cl))),
      snd (sync_each cid (listing_index cid now cl) games 0 (after_list cid now cl)))"
  using assms
  by (simp add: sync_games_to_calendar_def events_list_eq listing_index_def
        split: prod.splits)

lemma sync_games_to_calendar_raises:
  assumes "build_calendar_service creds = Inl err"
  shows "sync_games_to_calendar creds cid games now cl = (Inl err, cl)"
  using assms by (simp add: sync_games_to_calendar_def)

lemma after_list_simps [simp]:
  "calls (after_list cid now cl) = calls cl @ [ListCall cid (now @ ''Z'')]"
  "store (after_list cid now cl) = store cl"
  "faults (after_list cid now cl) = faults cl"
  "fresh (after_list cid now cl) = fresh cl"
  "in_window (after_list cid now cl) = in_window cl"
  by (simp_all add: after_list_def)

lemma sync_empty_list:
  assumes "build_calendar_service creds = Inr ()"
  shows "sync_games_to_calendar creds cid [] now cl = (Inr 0, after_list cid now cl)"
  by (simp add: sync_games_to_calendar_eq [OF assms])

lemma planned_calls_empty_index:
  "planned_calls cid Map.empty games = map (InsertCall cid) (transformed games)"
proof (induction games)
  case Nil
  then show ?case by (simp add: planned_calls_def transformed_def)
next
  case (Cons g gs)
  show ?case
  proof (cases "create_event_from_game g")
    case (Inl err)
    with Cons show ?thesis by (simp add: planned_calls_refused transformed_def)
  next
    case (Inr ev)
    then obtain gid where "game_id g = Some gid" using create_event_game_id by blast
    with Inr Cons show ?thesis
      by (simp add: planned_calls_insert [where gid = gid] transformed_def)
  qed
qed

lemma targets_exist_empty: "targets_exist cid Map.empty cl"
  by (simp add: targets_exist_def)

lemma sync_after_failed_listing:
  assumes b: "build_calendar_service creds = Inr ()" and f: "faults cl (length (calls cl))"
  shows "fst (sync_games_to_calendar creds cid games now cl) =
           Inr (succeeded (after_list cid now cl) (length (transformed games))) \<and>
         calls (snd (sync_games_to_calendar creds cid games now cl)) =
           calls cl @ ListCall cid (now @ ''Z'') # map (InsertCall cid) (transformed games)"
proof -
  from f have idx: "listing_index cid now cl = Map.empty" by (simp add: listing_index_def)
  obtain n cl' where s: "sync_each cid Map.empty games 0 (after_list cid now cl) = (n, cl')"
    by force
  from sync_each_frame [OF s] have "calls cl' =
      calls cl @ ListCall cid (now @ ''Z'') # map (InsertCall cid) (transformed games)"
    by (simp add: planned_calls_empty_index)
  moreover from sync_each_count [OF targets_exist_empty, of cid games 0 "after_list cid now cl"] s
  have "n = succeeded (after_list cid now cl) (length (transformed games))"
    by (simp add: planned_calls_empty_index)
  ultimately show ?thesis
    by (simp add: sync_games_to_calendar_eq [OF b] idx s)
qed

section \<open>The empty list and the failed listing\<close>

lemma transformed_test_game: "transformed [test_game] = [test_event]"
  by (simp add: transformed_def create_event_test_game)

text \<open>
  C7 (corrected). For the empty game list and credentials with the five required keys,
  reconcile returns 0, issues no create and no update call and leaves the stored events
  unchanged; it still issues the listing call, exactly once.
\<close>

theorem empty_game_list:
  assumes "build_calendar_service creds = Inr ()"
  shows "sync_games_to_calendar creds cid [] now cl =
           (Inr 0, cl\<lparr>calls := calls cl @ [ListCall cid (now @ ''Z'')]\<rparr>)"
  using sync_empty_list [OF assms] by (simp add: after_list_def)

theorem empty_game_list_witness:
  "build_calendar_service test_credentials = Inr () \<and>
   sync_games_to_calendar test_credentials ''cal'' [] ''2024-09-01T12:00:00'' empty_client =
     (Inr 0, empty_client\<lparr>calls := [ListCall ''cal'' ''2024-09-01T12:00:00Z'']\<rparr>)"
  using empty_game_list [OF build_calendar_service_test, of "''cal''" "''2024-09-01T12:00:00''" empty_client]
  by (simp add: empty_client_def)

text \<open>
  As stated (no call at all), the claim fails: on the empty list the provider that had
  received no call has received the listing call.
\<close>

theorem empty_game_list_counterexample:
  "calls empty_client = [] \<and>
   calls (snd (sync_games_to_calendar test_credentials ''cal'' [] ''2024-09-01T12:00:00''
                 empty_client)) = [ListCall ''cal'' ''2024-09-01T12:00:00Z'']"
  using sync_empty_list [OF build_calendar_service_test, of "''cal''" "''2024-09-01T12:00:00''" empty_client]
  by (simp add: empty_client_def)

text \<open>
  C4 (corrected). If the initial listing call fails, reconcile does not abort: the
  failure is caught, the index stays empty, every game the transform accepts is sent to
  create (none to update), and the count of the creates that did not fail is returned.
\<close>

theorem listing_failure_is_caught:
  assumes "build_calendar_service creds = Inr ()" and "faults cl (length (calls cl))"
  shows "fst (sync_games_to_calendar creds cid games now cl) =
           Inr (succeeded (after_list cid now cl) (length (transformed games))) \<and>
         calls (snd (sync_games_to_calendar creds cid games now cl)) =
           calls cl @ ListCall cid (now @ ''Z'') # map (InsertCall cid) (transformed games)"
  using assms by (rule sync_after_failed_listing)

lemma faults_list_failing: "faults list_failing_client (length (calls list_failing_client))"
  by (simp add: list_failing_client_def empty_client_def)

lemma succeeded_list_failing:
  "succeeded (after_list cid now list_failing_client) (Suc 0) = 1"
  by (simp add: succeeded_def list_failing_client_def empty_client_def)

theorem listing_failure_is_caught_witness:
  "build_calendar_service test_credentials = Inr () \<and>
   faults list_failing_client (length (calls list_failing_client)) \<and>
   fst (sync_games_to_calendar test_credentials ''cal'' [test_game] ''2024-09-01T12:00:00''
          list_failing_client) = Inr 1 \<and>
   calls (snd (sync_games_to_calendar test_credentials ''cal'' [test_game]
                 ''2024-09-01T12:00:00'' list_failing_client)) =
     calls list_failing_client @ [ListCall ''cal'' ''2024-09-01T12:00:00Z'', InsertCall ''cal'' test_event]"
  using listing_failure_is_caught [OF build_calendar_service_test faults_list_failing,
          of "''cal''" "[test_game]" "''2024-09-01T12:00:00''"]
  by (simp add: transformed_test_game faults_list_failing succeeded_list_failing)

text \<open>
  As stated (abort, no create, no count), the claim fails: with a failing listing the
  sample game is still sent to create and the count 1 is returned.
\<close>

theorem listing_failure_counterexample:
  "faults list_failing_client 0 \<and> calls list_failing_client = [] \<and>
   fst (sync_games_to_calendar test_credentials ''cal'' [test_game] ''2024-09-01T12:00:00''
          list_failing_client) = Inr 1 \<and>
   calls (snd (sync_games_to_calendar test_credentials ''cal'' [test_game]
                 ''2024-09-01T12:00:00'' list_failing_client)) =
     [ListCall ''cal'' ''2024-09-01T12:00:00Z'', InsertCall ''cal'' test_event]"
proof -
  have c: "calls list_failing_client = []" and f: "faults list_failing_client 0"
    by (simp_all add: list_failing_client_def empty_client_def)
  from sync_after_failed_listing [OF build_calendar_service_test faults_list_failing,
          of "''cal''" "[test_game]" "''2024-09-01T12:00:00''"]
  show ?thesis
    by (simp add: transformed_test_game succeeded_list_failing c f)
qed

section \<open>Counting the synced games\<close>

lemma index_events_source:
  "index_events items m gid = Some eid \<Longrightarrow> m gid = Some eid \<or> (\<exists>e\<in>set items. ev_id e = eid)"
proof (induction items arbitrary: m)
  case Nil
  then show ?case by simp
next
  case (Cons e es)
  from Cons.IH [OF Cons.prems [simplified]] show ?case
    by (auto split: option.splits if_splits)
qed

lemma targets_exist_listing: "targets_exist cid (listing_index cid now cl) (after_list cid now cl)"
proof -
  have "list_ex (is_event cid eid) (store cl)"
    if "index_events (listed cid now cl) Map.empty gid = Some eid" for gid eid
  proof -
    from index_events_source [OF that] obtain e where
      "e \<in> set (listed cid now cl)" "ev_id e = eid" by auto
    then have "e \<in> set (store cl)" "is_event cid eid e"
      by (simp_all add: listed_def is_event_def)
    then show ?thesis by (auto simp: list_ex_iff)
  qed
  then show ?thesis
    by (simp add: targets_exist_def listing_index_def)
qed

lemma length_planned_calls:
  "length (planned_calls cid idx games) = length (transformed games)"
proof (induction games)
  case Nil
  then show ?case by (simp add: planned_calls_def transformed_def)
next
  case (Cons g gs)
  show ?case
  proof (cases "create_event_from_game g")
    case (Inl err)
    with Cons show ?thesis by (simp add: planned_calls_refused transformed_def)
  next
    case (Inr ev)
    then obtain gid where "game_id g = Some gid" using create_event_game_id by blast
    with Inr Cons show ?thesis
      by (cases "idx gid")
         (simp_all add: planned_calls_insert [where gid = gid]
            planned_calls_update [where gid = gid] transformed_def)
  qed
qed

lemma length_transformed_all:
  "\<forall>g\<in>set games. \<exists>ev. create_event_from_game g = Inr ev \<Longrightarrow>
   length (transformed games) = length games"
  by (induction games) (auto simp: transformed_def)

text \<open>The count and the number of calls of a run, whatever the listing gave.\<close>

lemma sync_count_and_calls:
  assumes b: "build_calendar_service creds = Inr ()"
  shows "fst (sync_games_to_calendar creds cid games now cl) =
           Inr (succeeded (after_list cid now cl) (length (transformed games))) \<and>
         calls (snd (sync_games_to_calendar creds cid games now cl)) =
           calls cl @ ListCall cid (now @ ''Z'') # planned_calls cid (listing_index cid now cl) games"
proof -
  obtain n cl' where
    s: "sync_each cid (listing_index cid now cl) games 0 (after_list cid now cl) = (n, cl')"
    by force
  from sync_each_frame [OF s] have "calls cl' =
      calls cl @ ListCall cid (now @ ''Z'') # planned_calls cid (listing_index cid now cl) games"
    by simp
  moreover from sync_each_count [OF targets_exist_listing, of cid now cl games 0] s
  have "n = succeeded (after_list cid now cl) (length (transformed games))"
    by (simp add: length_planned_calls)
  ultimately show ?thesis
    by (simp add: sync_games_to_calendar_eq [OF b] s)
qed

lemma count_all_but_one:
  assumes "j < n"
  shows "length (filter (\<lambda>k. k \<noteq> j) [0..<n]) = n - 1"
proof -
  have "{i. i < n \<and> [0..<n] ! i \<noteq> j} = {k. k < n \<and> k \<noteq> j}"
    by auto
  then have "length (filter (\<lambda>k. k \<noteq> j) [0..<n]) = card {k. k < n \<and> k \<noteq> j}"
    by (simp add: length_filter_conv_card)
  also have "{k. k < n \<and> k \<noteq> j} = {..<n} - {j}" by auto
  also have "card \<dots> = n - 1" using assms by simp
  finally show ?thesis .
qed

lemma succeeded_all_but_one:
  assumes "j < n" and "\<forall>k<n. faults cl (length (calls cl) + k) \<longleftrightarrow> k = j"
  shows "succeeded cl n = n - 1"
proof -
  have "filter (\<lambda>k. \<not> faults cl (length (calls cl) + k)) [0..<n] = filter (\<lambda>k. k \<noteq> j) [0..<n]"
    using assms(2) by (intro filter_cong) auto
  then show ?thesis
    unfolding succeeded_def using count_all_but_one [OF assms(1)] by simp
qed

lemma sync_one_failure:
  assumes b: "build_calendar_service creds = Inr ()"
    and wf: "\<forall>g\<in>set games. \<exists>ev. create_event_from_game g = Inr ev"
    and j: "j < length games"
    and fl: "\<forall>k<length games. faults cl (length (calls cl) + 1 + k) \<longleftrightarrow> k = j"
  shows "fst (sync_games_to_calendar creds cid games now cl) = Inr (length games - 1) \<and>
         length (calls (snd (sync_games_to_calendar creds cid games now cl))) =
           length (calls cl) + 1 + length games"
proof -
  have t: "length (transformed games) = length games"
    by (rule length_transformed_all [OF wf])
  have "succeeded (after_list cid now cl) (length games) = length games - 1"
    using fl by (intro succeeded_all_but_one [OF j]) (simp add: add.assoc)
  with sync_count_and_calls [OF b, of cid games now cl] show ?thesis
    by (simp add: t length_planned_calls)
qed

lemma sync_two_records:
  assumes b: "build_calendar_service creds = Inr ()"
    and e1: "create_event_from_game g1 = Inr ev1" and e2: "create_event_from_game g2 = Inr ev2"
    and same: "game_id g1 = game_id g2"
    and empty: "store cl = []"
    and ok: "\<not> faults cl (length (calls cl))" "\<not> faults cl (length (calls cl) + 1)"
      "\<not> faults cl (length (calls cl) + 2)"
  shows "sync_games_to_calendar creds cid [g1, g2] now cl =
     (Inr 2,
      cl\<lparr>calls := calls cl @ [ListCall cid (now @ ''Z''), InsertCall cid ev1, InsertCall cid ev2],
         store := [\<lparr>ev_cal = cid, ev_id = fresh cl, ev_body = ev1\<rparr>,
                   \<lparr>ev_cal = cid, ev_id = Suc (fresh cl), ev_body = ev2\<rparr>],
         fresh := Suc (Suc (fresh cl))\<rparr>)"
proof -
  from e1 obtain gid where g1: "game_id g1 = Some gid" using create_event_game_id by blast
  with same have g2: "game_id g2 = Some gid" by simp
  have idx: "listing_index cid now cl = Map.empty"
    by (simp add: listing_index_def listed_def empty)
  show ?thesis
    using ok
    by (simp add: sync_games_to_calendar_eq [OF b] idx sync_game_def e1 e2 g1 g2
          events_insert_def after_list_def empty Let_def)
qed

section \<open>Partial failure and duplicate records\<close>

text \<open>
  C5 (confirmed). A failure of the provider on one game does not abort the run: when
  every game reaches its create or update call and the call fails for exactly one of
  them, every game is still processed (one provider call per game after the listing)
  and the returned count is the number of games less one.
\<close>

theorem per_game_failure_does_not_abort:
  assumes "build_calendar_service creds = Inr ()"
    and "\<forall>g\<in>set games. \<exists>ev. create_event_from_game g = Inr ev"
    and "j < length games"
    and "\<forall>k<length games. faults cl (length (calls cl) + 1 + k) \<longleftrightarrow> k = j"
  shows "fst (sync_games_to_calendar creds cid games now cl) = Inr (length games - 1) \<and>
         length (calls (snd (sync_games_to_calendar creds cid games now cl))) =
           length (calls cl) + 1 + length games"
  using assms by (rule sync_one_failure)

lemma game_id_game_with_id [simp]: "game_id (game_with_id gid) = Some gid"
  by (simp add: game_with_id_def)

lemma three_games_stored:
  "map (\<lambda>e. (ev_id e, ev_body e))
     (store (snd (sync_games_to_calendar test_credentials ''cal'' three_games
                    ''2024-09-01T12:00:00'' second_item_failing_client))) =
   [(0, sample_event ''1'' ''G1''), (1, sample_event ''1'' ''G3'')]"
  by (simp add: sync_games_to_calendar_eq listing_index_def listed_def three_games_def
        second_item_failing_client_def empty_client_def after_list_def
        sync_game_def create_event_game_with_id events_insert_def Let_def)

theorem per_game_failure_witness:
  "build_calendar_service test_credentials = Inr () \<and>
   create_event_from_game (game_with_id ''G1'') = Inr (sample_event ''1'' ''G1'') \<and>
   create_event_from_game (game_with_id ''G2'') = Inr (sample_event ''1'' ''G2'') \<and>
   create_event_from_game (game_with_id ''G3'') = Inr (sample_event ''1'' ''G3'') \<and>
   \<not> faults second_item_failing_client 1 \<and> faults second_item_failing_client 2 \<and>
   \<not> faults second_item_failing_client 3 \<and>
   fst (sync_games_to_calendar test_credentials ''cal'' three_games ''2024-09-01T12:00:00''
          second_item_failing_client) = Inr 2 \<and>
   length (calls (snd (sync_games_to_calendar test_credentials ''cal'' three_games
                         ''2024-09-01T12:00:00'' second_item_failing_client))) = 4 \<and>
   map (\<lambda>e. (ev_id e, ev_body e))
     (store (snd (sync_games_to_calendar test_credentials ''cal'' three_games
                    ''2024-09-01T12:00:00'' second_item_failing_client))) =
   [(0, sample_event ''1'' ''G1''), (1, sample_event ''1'' ''G3'')]"
proof -
  have wf: "\<forall>g\<in>set three_games. \<exists>ev. create_event_from_game g = Inr ev"
    by (simp add: three_games_def create_event_game_with_id)
  have j: "1 < length three_games" by (simp add: three_games_def)
  have fl: "\<forall>k<length three_games.
      faults second_item_failing_client (length (calls second_item_failing_client) + 1 + k)
        \<longleftrightarrow> k = 1"
    by (auto simp: second_item_failing_client_def empty_client_def)
  have f: "\<not> faults second_item_failing_client 1" "faults second_item_failing_client 2"
    "\<not> faults second_item_failing_client 3"
    by (simp_all add: second_item_failing_client_def empty_client_def)
  have c: "length (calls second_item_failing_client) = 0" "length three_games = 3"
    by (simp_all add: second_item_failing_client_def empty_client_def three_games_def)
  from per_game_failure_does_not_abort [OF build_calendar_service_test wf j fl,
         of "''cal''" "''2024-09-01T12:00:00''"] f
  show ?thesis
    by (simp add: c create_event_game_with_id three_games_stored)
qed

text \<open>
  C3 (corrected). The reconciler does not deduplicate its input: two accepted records
  that share a game id, against a calendar without events and a provider that does not
  fail, give two create calls and two events, the first with the body of the earlier
  record and the second with the body of the later one, and the count 2.
\<close>

theorem no_deduplication:
  assumes "build_calendar_service creds = Inr ()"
    and "create_event_from_game g1 = Inr ev1" and "create_event_from_game g2 = Inr ev2"
    and "game_id g1 = game_id g2"
    and "store cl = []"
    and "\<not> faults cl (length (calls cl))" "\<not> faults cl (length (calls cl) + 1)"
      "\<not> faults cl (length (calls cl) + 2)"
  shows "sync_games_to_calendar creds cid [g1, g2] now cl =
     (Inr 2,
      cl\<lparr>calls := calls cl @ [ListCall cid (now @ ''Z''), InsertCall cid ev1, InsertCall cid ev2],
         store := [\<lparr>ev_cal = cid, ev_id = fresh cl, ev_body = ev1\<rparr>,
                   \<lparr>ev_cal = cid, ev_id = Suc (fresh cl), ev_body = ev2\<rparr>],
         fresh := Suc (Suc (fresh cl))\<rparr>)"
  using assms by (rule sync_two_records)

lemma game_id_week_2: "game_id test_game_week_2 = game_id test_game"
  by (simp add: test_game_week_2_def)

lemma empty_client_simps [simp]:
  "store empty_client = []" "calls empty_client = []" "fresh empty_client = 0"
  "\<not> faults empty_client k"
  by (simp_all add: empty_client_def)

theorem no_deduplication_witness:
  "build_calendar_service test_credentials = Inr () \<and>
   create_event_from_game test_game = Inr test_event \<and>
   create_event_from_game test_game_week_2 = Inr (sample_event ''2'' ''2024_W1_TEST'') \<and>
   game_id test_game = game_id test_game_week_2 \<and>
   store empty_client = [] \<and>
   \<not> faults empty_client 0 \<and> \<not> faults empty_client 1 \<and> \<not> faults empty_client 2 \<and>
   sync_games_to_calendar test_credentials ''cal'' [test_game, test_game_week_2]
       ''2024-09-01T12:00:00'' empty_client =
     (Inr 2,
      empty_client\<lparr>calls := [ListCall ''cal'' ''2024-09-01T12:00:00Z'',
                              InsertCall ''cal'' test_event,
                              InsertCall ''cal'' (sample_event ''2'' ''2024_W1_TEST'')],
         store := [\<lparr>ev_cal = ''cal'', ev_id = 0, ev_body = test_event\<rparr>,
                   \<lparr>ev_cal = ''cal'', ev_id = 1, ev_body = sample_event ''2'' ''2024_W1_TEST''\<rparr>],
         fresh := 2\<rparr>)"
  using no_deduplication [OF build_calendar_service_test create_event_test_game
          create_event_week_2 game_id_week_2 [symmetric], of empty_client "''cal''"
          "''2024-09-01T12:00:00''"]
  by (simp add: create_event_test_game create_event_week_2 game_id_week_2)

text \<open>
  As stated (exactly one event, from the later record), the claim fails: the two sample
  records share their game id and differ in the week, and the run on the empty calendar
  stores two events, the first of them from the earlier record.
\<close>

theorem no_deduplication_counterexample:
  "game_id test_game = game_id test_game_week_2 \<and>
   week test_game = Some ''1'' \<and> week test_game_week_2 = Some ''2'' \<and>
   map ev_body (store (snd (sync_games_to_calendar test_credentials ''cal''
       [test_game, test_game_week_2] ''2024-09-01T12:00:00'' empty_client))) =
     [test_event, sample_event ''2'' ''2024_W1_TEST'']"
proof -
  have "week test_game = Some ''1''" "week test_game_week_2 = Some ''2''"
    by (simp_all add: test_game_def test_game_week_2_def)
  with sync_two_records [OF build_calendar_service_test create_event_test_game
          create_event_week_2 game_id_week_2 [symmetric], of empty_client "''cal''"
          "''2024-09-01T12:00:00''"]
  show ?thesis by (simp add: game_id_week_2)
qed

section \<open>Duplicates in the listing\<close>

lemma index_events_last:
  "index_events items m gid =
     (case filter (\<lambda>e. event_game_id (ev_body e) = Some gid) items of
        [] \<Rightarrow> m gid
      | x # xs \<Rightarrow> Some (ev_id (last (x # xs))))"
proof (induction items arbitrary: m)
  case Nil
  then show ?case by simp
next
  case (Cons e es)
  show ?case
    by (simp add: Cons.IH split: option.splits list.splits)
qed

lemma scan_lines_first:
  "scan_lines ls = map_option tag_of_line (find (\<lambda>l. startswith l ''Game ID:'') ls)"
  by (induction ls) simp_all

lemma event_game_id_first_tag_line:
  "event_game_id x =
     (case description x of
        None \<Rightarrow> None
      | Some d \<Rightarrow> map_option tag_of_line
                    (find (\<lambda>l. startswith l ''Game ID:'') (split_on (CHR 0x0A) d)))"
  by (simp add: event_game_id_def scan_lines_first split: option.splits)

lemma listing_index_last:
  assumes "\<not> faults cl (length (calls cl))"
    and "filter (\<lambda>e. event_game_id (ev_body e) = Some gid) (listed cid now cl) \<noteq> []"
  shows "listing_index cid now cl gid =
           Some (ev_id (last (filter (\<lambda>e. event_game_id (ev_body e) = Some gid)
                                 (listed cid now cl))))"
  using assms by (simp add: listing_index_def index_events_last split: list.splits)

lemma duplicated_client_simps [simp]:
  "store duplicated_client =
     [\<lparr>ev_cal = ''cal'', ev_id = 0, ev_body = test_event\<rparr>,
      \<lparr>ev_cal = ''cal'', ev_id = 1, ev_body = test_event\<rparr>]"
  "calls duplicated_client = []" "\<not> faults duplicated_client k"
  "in_window duplicated_client t b"
  by (simp_all add: duplicated_client_def empty_client_def)

lemma listed_duplicated:
  "filter (\<lambda>e. event_game_id (ev_body e) = Some ''2024_W1_TEST'')
     (listed ''cal'' ''2024-09-01T12:00:00'' duplicated_client) =
   [\<lparr>ev_cal = ''cal'', ev_id = 0, ev_body = test_event\<rparr>,
    \<lparr>ev_cal = ''cal'', ev_id = 1, ev_body = test_event\<rparr>]"
  by (simp add: listed_def event_game_id_test_event)

section \<open>The orchestrator and the last sync record\<close>

lemma handle_oauth_callback_keys:
  assumes "handle_oauth_callback fetched = Inr creds"
  shows "build_calendar_service creds = Inr ()"
  using assms
  by (auto simp: handle_oauth_callback_def build_calendar_service_def split: sum.splits)

lemma callback_without_state:
  "handle_calendar_callback None ts fetched now utcnow w = (Setup_failed, w)"
  by (simp add: handle_calendar_callback_def)

lemma callback_expired:
  "ts - t > 3600 \<Longrightarrow>
   handle_calendar_callback (Some (u, t)) ts fetched now utcnow w = (Setup_failed, w)"
  by (simp add: handle_calendar_callback_def)

lemma callback_exchange_failed:
  "users (snd (handle_calendar_callback st ts (Inl err) now utcnow w)) = users w"
  by (simp add: handle_calendar_callback_def handle_oauth_callback_def
        split: option.splits prod.splits)

lemma callback_calendar_failed:
  assumes "ts - t \<le> 3600" "handle_oauth_callback fetched = Inr creds"
    and "fst (create_calendar creds ''NFL Game Schedule'' (account w)) = Inl err"
  shows "users (snd (handle_calendar_callback (Some (u, t)) ts fetched now utcnow w)) = users w"
proof -
  obtain acct where "create_calendar creds ''NFL Game Schedule'' (account w) = (Inl err, acct)"
    using assms(3) by (cases "create_calendar creds ''NFL Game Schedule'' (account w)") simp
  with assms(1,2) show ?thesis
    by (simp add: handle_calendar_callback_def)
qed

lemma callback_synced:
  assumes u: "users w uid = Some user_data" and t: "favorite_teams user_data \<noteq> []"
    and g: "games = find_games_by_team_id (favorite_teams user_data) (games_collection w)"
    and ts: "ts - t \<le> 3600" and o: "handle_oauth_callback fetched = Inr creds"
    and c: "fst (create_calendar creds ''NFL Game Schedule'' (account w)) = Inr cid"
  shows "\<exists>n. fst (sync_games_to_calendar creds cid games now (provider w)) = Inr n \<and>
    users (snd (handle_calendar_callback (Some (uid, t)) ts fetched now utcnow w)) =
      (users w)(uid \<mapsto> user_data\<lparr>status_is_connected := True,
                                 status_calendar_id := Some cid,
                                 status_credentials := Some creds,
                                 last_sync := Some (utcnow, n)\<rparr>)"
proof -
  obtain acct where cc: "create_calendar creds ''NFL Game Schedule'' (account w) = (Inr cid, acct)"
    using c by (cases "create_calendar creds ''NFL Game Schedule'' (account w)") simp
  note k = handle_oauth_callback_keys [OF o]
  obtain n cl' where e: "sync_each cid (listing_index cid now (provider w)) games 0
                    (after_list cid now (provider w)) = (n, cl')" by force
  have s: "sync_games_to_calendar creds cid games now (provider w) = (Inr n, cl')"
    by (simp add: sync_games_to_calendar_eq [OF k] e)
  have "users (snd (handle_calendar_callback (Some (uid, t)) ts fetched now utcnow w)) =
      (users w)(uid \<mapsto> user_data\<lparr>status_is_connected := True,
                                 status_calendar_id := Some cid,
                                 status_credentials := Some creds,
                                 last_sync := Some (utcnow, n)\<rparr>)"
    using u t ts
    by (simp add: handle_calendar_callback_def o cc update_calendar_status_def
          get_user_teams_def g [symmetric] s update_last_sync_def Let_def)
  with s show ?thesis by simp
qed

text \<open>
  C9 (confirmed). With a user who has selected teams. In \<open>sync_calendar\<close>: when the
  reconciler call raises, the user store is left as it was, and when it returns a
  count, the user's \<open>last_sync\<close> becomes that count with the timestamp. In
  \<open>handle_calendar_callback\<close>: a request that fails before the reconciler is called (no
  decoded state, an expired state, a failed exchange of the code, a failed
  \<open>create_calendar\<close>) leaves the user store as it was; in every other request the
  reconciler returns a count, since the credentials dictionary made by
  \<open>handle_oauth_callback\<close> has the keys that \<open>create_calendar\<close> has already checked,
  and the user's \<open>last_sync\<close> becomes that count with the timestamp, in the calendar
  status that the request has just recorded.
\<close>

theorem last_sync_persisted_only_with_a_count:
  assumes "users w uid = Some user_data" and "favorite_teams user_data \<noteq> []"
    and "games = find_games_by_team_id (favorite_teams user_data) (games_collection w)"
  shows
    "(google_credentials user_data = Some creds \<and> user_calendar_id user_data = Some cid \<and>
      games \<noteq> [] \<longrightarrow>
        (case fst (sync_games_to_calendar creds cid games now (provider w)) of
           Inl err \<Rightarrow> users (snd (sync_calendar uid now utcnow w)) = users w
         | Inr n \<Rightarrow>
             users (snd (sync_calendar uid now utcnow w)) =
               (users w)(uid \<mapsto> user_data\<lparr>last_sync := Some (utcnow, n)\<rparr>))) \<and>
     users (snd (handle_calendar_callback None ts fetched now utcnow w)) = users w \<and>
     (ts - t0 > 3600 \<longrightarrow>
        users (snd (handle_calendar_callback (Some (u0, t0)) ts fetched now utcnow w)) = users w) \<and>
     users (snd (handle_calendar_callback st ts (Inl err0) now utcnow w)) = users w \<and>
     (ts - t \<le> 3600 \<and> handle_oauth_callback fetched = Inr creds2 \<longrightarrow>
        (case fst (create_calendar creds2 ''NFL Game Schedule'' (account w)) of
           Inl err \<Rightarrow>
             users (snd (handle_calendar_callback (Some (uid, t)) ts fetched now utcnow w)) =
               users w
         | Inr cid2 \<Rightarrow>
             (case fst (sync_games_to_calendar creds2 cid2 games now (provider w)) of
                Inl err \<Rightarrow> False
              | Inr n \<Rightarrow>
                  users (snd (handle_calendar_callback (Some (uid, t)) ts fetched now utcnow w)) =
                    (users w)(uid \<mapsto> user_data\<lparr>status_is_connected := True,
                                               status_calendar_id := Some cid2,
                                               status_credentials := Some creds2,
                                               last_sync := Some (utcnow, n)\<rparr>))))"
proof -
  have a: "case fst (sync_games_to_calendar creds cid games now (provider w)) of
           Inl err \<Rightarrow> users (snd (sync_calendar uid now utcnow w)) = users w
         | Inr n \<Rightarrow>
             users (snd (sync_calendar uid now utcnow w)) =
               (users w)(uid \<mapsto> user_data\<lparr>last_sync := Some (utcnow, n)\<rparr>)"
    if "google_credentials user_data = Some creds" "user_calendar_id user_data = Some cid"
      "games \<noteq> []"
    using assms that
    by (auto simp: sync_calendar_def get_user_teams_def update_last_sync_def Let_def
             split: prod.splits sum.splits)
  have b: "case fst (create_calendar creds2 ''NFL Game Schedule'' (account w)) of
           Inl err \<Rightarrow>
             users (snd (handle_calendar_callback (Some (uid, t)) ts fetched now utcnow w)) =
               users w
         | Inr cid2 \<Rightarrow>
             (case fst (sync_games_to_calendar creds2 cid2 games now (provider w)) of
                Inl err \<Rightarrow> False
              | Inr n \<Rightarrow>
                  users (snd (handle_calendar_callback (Some (uid, t)) ts fetched now utcnow w)) =
                    (users w)(uid \<mapsto> user_data\<lparr>status_is_connected := True,
                                               status_calendar_id := Some cid2,
                                               status_credentials := Some creds2,
                                               last_sync := Some (utcnow, n)\<rparr>))"
    if h: "ts - t \<le> 3600" "handle_oauth_callback fetched = Inr creds2"
  proof (cases "fst (create_calendar creds2 ''NFL Game Schedule'' (account w))")
    case (Inl err)
    with callback_calendar_failed [OF h this] show ?thesis by simp
  next
    case (Inr cid2)
    from callback_synced [OF assms h Inr, of now utcnow] obtain n where
      "fst (sync_games_to_calendar creds2 cid2 games now (provider w)) = Inr n"
      "users (snd (handle_calendar_callback (Some (uid, t)) ts fetched now utcnow w)) =
         (users w)(uid \<mapsto> user_data\<lparr>status_is_connected := True,
                                    status_calendar_id := Some cid2,
                                    status_credentials := Some creds2,
                                    last_sync := Some (utcnow, n)\<rparr>)"
      by blast
    with Inr show ?thesis by simp
  qed
  have c: "ts - t0 > 3600 \<longrightarrow>
        users (snd (handle_calendar_callback (Some (u0, t0)) ts fetched now utcnow w)) = users w"
    by (simp add: callback_expired)
  have d: "users (snd (handle_calendar_callback None ts fetched now utcnow w)) = users w"
    by (simp add: callback_without_state)
  from a b c d callback_exchange_failed [of st ts err0 now utcnow w] show ?thesis
    by blast
qed


lemma sync_test_game_count:
  assumes "build_calendar_service creds = Inr ()"
  shows "fst (sync_games_to_calendar creds ''cal'' [test_game] now empty_client) = Inr 1"
  using sync_count_and_calls [OF assms, of "''cal''" "[test_game]" now empty_client]
  by (simp add: transformed_test_game succeeded_def)

lemma sample_world_simps [simp]:
  "users (sample_world u) = [sample_user_id \<mapsto> u]"
  "games_collection (sample_world u) = [test_game]"
  "provider (sample_world u) = empty_client"
  "account (sample_world u) = sample_account"
  by (simp_all add: sample_world_def)

lemma find_games_sample: "find_games_by_team_id [''18''] [test_game] = [test_game]"
  by (simp add: find_games_by_team_id_def test_game_def)

lemma handle_oauth_callback_sample:
  "handle_oauth_callback (Inr fetched_credentials) = Inr oauth_credentials"
  by (simp add: handle_oauth_callback_def fetched_credentials_def oauth_credentials_def)

lemma create_calendar_sample:
  "create_calendar oauth_credentials ''NFL Game Schedule'' sample_account =
     (Inr ''cal'',
      sample_account\<lparr>calendar_items :=
        [\<lparr>entry_id = ''primary'', entry_summary = ''Personal''\<rparr>,
         \<lparr>entry_id = ''cal'', entry_summary = ''NFL Game Schedule''\<rparr>]\<rparr>)"
  by (simp add: create_calendar_def build_calendar_service_def oauth_credentials_def
        sample_account_def)

theorem last_sync_persisted_witness:
  "users (sample_world sample_user) sample_user_id = Some sample_user \<and>
   favorite_teams sample_user = [''18''] \<and>
   find_games_by_team_id [''18''] (games_collection (sample_world sample_user)) = [test_game] \<and>
   google_credentials sample_user = Some test_credentials \<and>
   user_calendar_id sample_user = Some ''cal'' \<and>
   (1725206401 :: int) - 1725200000 > 3600 \<and> (1725206401 :: int) - 1725206000 \<le> 3600 \<and>
   handle_oauth_callback (Inr fetched_credentials) = Inr oauth_credentials \<and>
   fst (create_calendar oauth_credentials ''NFL Game Schedule''
          (account (sample_world sample_user))) = Inr ''cal'' \<and>
   fst (sync_games_to_calendar test_credentials ''cal'' [test_game] ''2024-09-01T12:00:00''
          (provider (sample_world sample_user))) = Inr 1 \<and>
   fst (sync_games_to_calendar oauth_credentials ''cal'' [test_game] ''2024-09-01T12:00:00''
          (provider (sample_world sample_user))) = Inr 1 \<and>
   users (snd (sync_calendar sample_user_id ''2024-09-01T12:00:00'' ''2024-09-01T16:00:01''
                 (sample_world sample_user))) =
     [sample_user_id \<mapsto> sample_user\<lparr>last_sync := Some (''2024-09-01T16:00:01'', 1)\<rparr>] \<and>
   users (snd (handle_calendar_callback (Some (sample_user_id, 1725200000)) 1725206401
                 (Inr fetched_credentials) ''2024-09-01T12:00:00'' ''2024-09-01T16:00:01''
                 (sample_world sample_user))) =
     [sample_user_id \<mapsto> sample_user] \<and>
   users (snd (handle_calendar_callback (Some (sample_user_id, 1725206000)) 1725206401
                 (Inr fetched_credentials) ''2024-09-01T12:00:00'' ''2024-09-01T16:00:01''
                 (sample_world sample_user))) =
     [sample_user_id \<mapsto> sample_user\<lparr>status_credentials := Some oauth_credentials,
                                        last_sync := Some (''2024-09-01T16:00:01'', 1)\<rparr>]"
proof -
  let ?w = "sample_world sample_user"
  let ?now = "''2024-09-01T12:00:00''" and ?utcnow = "''2024-09-01T16:00:01''"
  have u: "users ?w sample_user_id = Some sample_user" by simp
  have t: "favorite_teams sample_user \<noteq> []" "favorite_teams sample_user = [''18'']"
    by (simp_all add: sample_user_def)
  have g: "[test_game] = find_games_by_team_id (favorite_teams sample_user) (games_collection ?w)"
    by (simp add: t find_games_sample)
  have g': "find_games_by_team_id [''18''] (games_collection ?w) = [test_game]"
    by (simp add: find_games_sample)
  have c: "google_credentials sample_user = Some test_credentials"
    "user_calendar_id sample_user = Some ''cal''"
    by (simp_all add: sample_user_def)
  have n: "(1725206401 :: int) - 1725200000 > 3600" "(1725206401 :: int) - 1725206000 \<le> 3600"
    by simp_all
  have cc: "fst (create_calendar oauth_credentials ''NFL Game Schedule'' (account ?w)) = Inr ''cal''"
    by (simp add: create_calendar_sample)
  have k: "build_calendar_service oauth_credentials = Inr ()"
    by (rule handle_oauth_callback_keys [OF handle_oauth_callback_sample])
  have s1: "fst (sync_games_to_calendar test_credentials ''cal'' [test_game] ?now (provider ?w)) = Inr 1"
    by (simp add: sync_test_game_count)
  have s2: "fst (sync_games_to_calendar oauth_credentials ''cal'' [test_game] ?now (provider ?w)) = Inr 1"
    by (simp add: sync_test_game_count [OF k])
  have same: "sample_user\<lparr>status_is_connected := True, status_calendar_id := Some ''cal'',
      status_credentials := Some oauth_credentials,
      last_sync := Some (?utcnow, 1)\<rparr> =
      sample_user\<lparr>status_credentials := Some oauth_credentials,
                  last_sync := Some (?utcnow, 1)\<rparr>"
    by (simp add: sample_user_def)
  note th = last_sync_persisted_only_with_a_count [OF u t(1) g,
      where creds = test_credentials and cid = "''cal''" and now = ?now and utcnow = ?utcnow
        and ts = 1725206401 and ?t0.0 = 1725200000 and t = 1725206000
        and ?u0.0 = sample_user_id
        and fetched = "Inr fetched_credentials" and ?creds2.0 = oauth_credentials]
  have r1: "users (snd (sync_calendar sample_user_id ?now ?utcnow ?w)) =
     [sample_user_id \<mapsto> sample_user\<lparr>last_sync := Some (?utcnow, 1)\<rparr>]"
    using th [THEN conjunct1] c s1 by simp
  have r2: "users (snd (handle_calendar_callback (Some (sample_user_id, 1725200000)) 1725206401
                 (Inr fetched_credentials) ?now ?utcnow ?w)) = [sample_user_id \<mapsto> sample_user]"
    using th [THEN conjunct2, THEN conjunct2, THEN conjunct1] by simp
  have r3: "users (snd (handle_calendar_callback (Some (sample_user_id, 1725206000)) 1725206401
                 (Inr fetched_credentials) ?now ?utcnow ?w)) =
     [sample_user_id \<mapsto> sample_user\<lparr>status_credentials := Some oauth_credentials,
                                        last_sync := Some (?utcnow, 1)\<rparr>]"
    using th [THEN conjunct2, THEN conjunct2, THEN conjunct2, THEN conjunct2]
      handle_oauth_callback_sample cc s2 same
    by simp
  from u t(2) g' c n handle_oauth_callback_sample cc s1 s2 r1 r2 r3
  show ?thesis by (intro conjI)
qed

text \<open>
  The other branches at the same user: with a stored credentials dictionary without
  keys the reconciler of \<open>sync_calendar\<close> raises, and when the creation of the
  calendar fails the callback stops before its first write; both leave the earlier
  \<open>last_sync\<close> record as it was.
\<close>

lemma last_sync_kept_when_reconciler_raises:
  "users (snd (sync_calendar sample_user_id ''2024-09-01T12:00:00'' ''2024-09-01T16:00:01''
                 (sample_world (sample_user\<lparr>google_credentials := Some []\<rparr>)))) =
     [sample_user_id \<mapsto> sample_user\<lparr>google_credentials := Some []\<rparr>]"
  by (simp add: sync_calendar_def get_user_teams_def sample_user_def find_games_sample
        sync_games_to_calendar_def build_calendar_service_def)

lemma last_sync_kept_when_calendar_creation_fails:
  "users (snd (handle_calendar_callback (Some (sample_user_id, 1725206000)) 1725206401
                 (Inr fetched_credentials) ''2024-09-01T12:00:00'' ''2024-09-01T16:00:01''
                 ((sample_world sample_user)\<lparr>account := sample_account\<lparr>insert_fails := True\<rparr>\<rparr>))) =
     [sample_user_id \<mapsto> sample_user]"
  by (simp add: handle_calendar_callback_def handle_oauth_callback_sample create_calendar_def
        build_calendar_service_def oauth_credentials_def sample_account_def)

section \<open>One event per game\<close>

lemma sync_game_store_cases:
  assumes "sync_game cid idx g cl = (r, cl')"
  obtains (same) "store cl' = store cl" "fresh cl' = fresh cl"
  | (updated) ev gid eid where "create_event_from_game g = Inr ev" "game_id g = Some gid"
      "idx gid = Some eid" "r = Inr ()" "fresh cl' = fresh cl"
      "store cl' = map (\<lambda>e. if is_event cid eid e then e\<lparr>ev_body := ev\<rparr> else e) (store cl)"
  | (inserted) ev gid where "create_event_from_game g = Inr ev" "game_id g = Some gid"
      "idx gid = None" "r = Inr ()" "fresh cl' = Suc (fresh cl)"
      "store cl' = store cl @ [\<lparr>ev_cal = cid, ev_id = fresh cl, ev_body = ev\<rparr>]"
proof (cases rule: sync_game_cases [where g = g and cid = cid and idx = idx and cl = cl])
  case (refused err)
  with assms show ?thesis using same by auto
next
  case (update ev gid eid)
  with assms have u: "events_update cid eid ev cl = (r, cl')" by simp
  show ?thesis
  proof (cases "r = Inr ()")
    case True
    with u have "fresh cl' = fresh cl"
      "store cl' = map (\<lambda>e. if is_event cid eid e then e\<lparr>ev_body := ev\<rparr> else e) (store cl)"
      by (auto simp: events_update_def Let_def split: if_splits)
    with update True show ?thesis using updated by blast
  next
    case False
    with u have "store cl' = store cl" "fresh cl' = fresh cl"
      by (auto simp: events_update_def Let_def split: if_splits)
    then show ?thesis using same by blast
  qed
next
  case (insert ev gid)
  obtain r0 cl0 where i: "events_insert cid ev cl = (r0, cl0)" by force
  with insert assms have c: "cl' = cl0" and rr: "(r = Inr ()) = (\<exists>k. r0 = Inr k)"
    by (auto split: sum.splits)
  show ?thesis
  proof (cases "r = Inr ()")
    case True
    with rr i have "fresh cl0 = Suc (fresh cl)"
      "store cl0 = store cl @ [\<lparr>ev_cal = cid, ev_id = fresh cl, ev_body = ev\<rparr>]"
      by (auto simp: events_insert_def Let_def split: if_splits)
    with insert True c show ?thesis using inserted by blast
  next
    case False
    with rr i have "store cl0 = store cl" "fresh cl0 = fresh cl"
      by (auto simp: events_insert_def Let_def split: if_splits)
    with c show ?thesis using same by blast
  qed
qed

lemma event_keys_Nil [simp]: "event_keys [] = []"
  by (simp add: event_keys_def)

lemma event_keys_append: "event_keys (xs @ ys) = event_keys xs @ event_keys ys"
  by (induction xs) (simp_all add: event_keys_def split: option.splits)

lemma event_keys_single:
  "event_game_id (ev_body e) = Some gid \<Longrightarrow> event_keys [e] = [(ev_cal e, gid)]"
  by (simp add: event_keys_def)

lemma event_keys_mem:
  "(c, gid) \<in> set (event_keys xs) \<longleftrightarrow>
     (\<exists>e\<in>set xs. ev_cal e = c \<and> event_game_id (ev_body e) = Some gid)"
  by (induction xs) (auto simp: event_keys_def split: option.splits)

lemma event_keys_update:
  assumes "\<forall>e\<in>set xs. is_event cid eid e \<longrightarrow> event_game_id (ev_body e) = event_game_id ev"
  shows "event_keys (map (\<lambda>e. if is_event cid eid e then e\<lparr>ev_body := ev\<rparr> else e) xs)
           = event_keys xs"
  using assms by (induction xs) (simp_all add: event_keys_def split: option.splits)

lemma index_sound_step:
  assumes s: "sync_game cid idx g cl = (r, cl')" and i: "index_sound cid idx cl"
    and st: "tag_stable g"
  shows "index_sound cid idx cl'"
using s proof (cases rule: sync_game_store_cases)
  case same
  with i show ?thesis by (simp add: index_sound_def)
next
  case (updated ev gid eid)
  have tag: "event_game_id ev = Some gid"
    using event_game_id_stable [OF st updated(1)] updated(2) by simp
  show ?thesis
    unfolding index_sound_def
  proof (intro allI impI conjI ballI)
    fix gid' eid' assume a: "idx gid' = Some eid'"
    with i show "eid' < fresh cl'" by (simp add: index_sound_def updated(5))
    fix e' assume e': "e' \<in> set (store cl')" and is': "is_event cid eid' e'"
    from e' updated(6) obtain e where e: "e \<in> set (store cl)"
      and e'eq: "e' = (if is_event cid eid e then e\<lparr>ev_body := ev\<rparr> else e)" by auto
    from is' e'eq have ise: "is_event cid eid' e" by (auto simp: is_event_def split: if_splits)
    with i a e have old: "event_game_id (ev_body e) = Some gid'" by (auto simp: index_sound_def)
    show "event_game_id (ev_body e') = Some gid'"
    proof (cases "is_event cid eid e")
      case True
      with i updated(3) e have "event_game_id (ev_body e) = Some gid"
        by (auto simp: index_sound_def)
      with old have "gid = gid'" by simp
      with True e'eq tag show ?thesis by simp
    next
      case False
      with e'eq old show ?thesis by simp
    qed
  qed
next
  case (inserted ev gid)
  show ?thesis
    unfolding index_sound_def
  proof (intro allI impI conjI ballI)
    fix gid' eid' assume a: "idx gid' = Some eid'"
    with i have lt: "eid' < fresh cl" by (simp add: index_sound_def)
    then show "eid' < fresh cl'" by (simp add: inserted(5))
    fix e' assume e': "e' \<in> set (store cl')" and is': "is_event cid eid' e'"
    from is' lt have "ev_id e' \<noteq> fresh cl"
      by (simp add: is_event_def)
    then have "e' \<noteq> \<lparr>ev_cal = cid, ev_id = fresh cl, ev_body = ev\<rparr>"
      by (metis cal_event.select_convs(2))
    with e' inserted(6) have "e' \<in> set (store cl)" by simp
    with i a is' show "event_game_id (ev_body e') = Some gid'"
      by (auto simp: index_sound_def)
  qed
qed

lemma event_keys_step:
  assumes s: "sync_game cid idx g cl = (r, cl')" and i: "index_sound cid idx cl"
    and st: "tag_stable g"
  shows "event_keys (store cl') = event_keys (store cl) \<or>
         (\<exists>gid. game_id g = Some gid \<and> idx gid = None \<and>
            event_keys (store cl') = event_keys (store cl) @ [(cid, gid)])"
using s proof (cases rule: sync_game_store_cases)
  case same
  then show ?thesis by simp
next
  case (updated ev gid eid)
  have tag: "event_game_id ev = Some gid"
    using event_game_id_stable [OF st updated(1)] updated(2) by simp
  have "\<forall>e\<in>set (store cl). is_event cid eid e \<longrightarrow> event_game_id (ev_body e) = event_game_id ev"
    using i updated(3) tag by (auto simp: index_sound_def)
  from event_keys_update [OF this] updated(6) show ?thesis by simp
next
  case (inserted ev gid)
  have tag: "event_game_id ev = Some gid"
    using event_game_id_stable [OF st inserted(1)] inserted(2) by simp
  then have "event_keys [\<lparr>ev_cal = cid, ev_id = fresh cl, ev_body = ev\<rparr>] = [(cid, gid)]"
    using event_keys_single [of "\<lparr>ev_cal = cid, ev_id = fresh cl, ev_body = ev\<rparr>" gid] by simp
  with inserted show ?thesis by (simp add: event_keys_append)
qed

lemma sync_each_one_event_per_game:
  assumes "index_sound cid idx cl" and "unindexed_absent cid idx games cl"
    and "distinct (event_keys (store cl))"
    and "distinct (map game_id games)" and "\<forall>g\<in>set games. tag_stable g"
  shows "distinct (event_keys (store (snd (sync_each cid idx games c cl))))"
  using assms
proof (induction games arbitrary: c cl)
  case Nil
  then show ?case by simp
next
  case (Cons g gs)
  obtain r cl1 where s: "sync_game cid idx g cl = (r, cl1)" by force
  from Cons.prems have st: "tag_stable g" and sts: "\<forall>g\<in>set gs. tag_stable g"
    and dg: "distinct (map game_id gs)" and ng: "game_id g \<notin> game_id ` set gs"
    by simp_all
  have i1: "index_sound cid idx cl1" by (rule index_sound_step [OF s Cons.prems(1) st])
  from event_keys_step [OF s Cons.prems(1) st]
  have "unindexed_absent cid idx gs cl1 \<and> distinct (event_keys (store cl1))"
  proof
    assume "event_keys (store cl1) = event_keys (store cl)"
    with Cons.prems(2,3) show ?thesis by (simp add: unindexed_absent_def)
  next
    assume "\<exists>gid. game_id g = Some gid \<and> idx gid = None \<and>
            event_keys (store cl1) = event_keys (store cl) @ [(cid, gid)]"
    then obtain gid where gid: "game_id g = Some gid" "idx gid = None"
      and k: "event_keys (store cl1) = event_keys (store cl) @ [(cid, gid)]" by blast
    from Cons.prems(2) gid have fresh_key: "(cid, gid) \<notin> set (event_keys (store cl))"
      by (auto simp: unindexed_absent_def)
    have "unindexed_absent cid idx gs cl1"
      unfolding unindexed_absent_def
    proof (intro ballI allI impI)
      fix g' gid' assume g': "g' \<in> set gs" and a: "game_id g' = Some gid' \<and> idx gid' = None"
      with Cons.prems(2) have "(cid, gid') \<notin> set (event_keys (store cl))"
        by (auto simp: unindexed_absent_def)
      moreover from ng g' a gid have "gid' \<noteq> gid" by force
      ultimately show "(cid, gid') \<notin> set (event_keys (store cl1))" by (simp add: k)
    qed
    with fresh_key Cons.prems(3) k show ?thesis by simp
  qed
  with Cons.IH [OF i1 _ _ dg sts] have
    "\<And>c1. distinct (event_keys (store (snd (sync_each cid idx gs c1 cl1))))" by blast
  with s show ?case by (auto split: sum.splits)
qed

lemma distinct_map_eq:
  "distinct (map f xs) \<Longrightarrow> x \<in> set xs \<Longrightarrow> y \<in> set xs \<Longrightarrow> f x = f y \<Longrightarrow> x = y"
  by (meson distinct_map inj_onD)

lemma listing_index_Some:
  assumes "listing_index cid now cl gid = Some eid"
  shows "\<exists>e\<in>set (store cl). ev_cal e = cid \<and> ev_id e = eid \<and>
           event_game_id (ev_body e) = Some gid \<and> in_window cl (now @ ''Z'') (ev_body e)"
proof -
  let ?dups = "filter (\<lambda>e. event_game_id (ev_body e) = Some gid) (listed cid now cl)"
  from assms have nf: "\<not> faults cl (length (calls cl))"
    by (auto simp: listing_index_def split: if_splits)
  with assms have ne: "?dups \<noteq> []"
    by (auto simp: listing_index_def index_events_last split: list.splits)
  with listing_index_last [OF nf ne] assms have "eid = ev_id (last ?dups)" by simp
  moreover from ne have "last ?dups \<in> set ?dups" by (rule last_in_set)
  ultimately show ?thesis by (auto simp: listed_def)
qed

lemma listing_index_None:
  assumes "listing_index cid now cl gid = None" and "\<not> faults cl (length (calls cl))"
    and "e \<in> set (store cl)" and "ev_cal e = cid" and "in_window cl (now @ ''Z'') (ev_body e)"
  shows "event_game_id (ev_body e) \<noteq> Some gid"
proof
  assume "event_game_id (ev_body e) = Some gid"
  with assms(3-5) have
    "e \<in> set (filter (\<lambda>e. event_game_id (ev_body e) = Some gid) (listed cid now cl))"
    by (simp add: listed_def)
  then have "filter (\<lambda>e. event_game_id (ev_body e) = Some gid) (listed cid now cl) \<noteq> []"
    by (metis empty_iff empty_set)
  from listing_index_last [OF assms(2) this] assms(1) show False by simp
qed

lemma listing_index_sound:
  assumes "client_ok cl"
  shows "index_sound cid (listing_index cid now cl) (after_list cid now cl)"
  unfolding index_sound_def
proof (intro allI impI conjI ballI)
  fix gid eid assume a: "listing_index cid now cl gid = Some eid"
  from listing_index_Some [OF a] obtain e0 where e0: "e0 \<in> set (store cl)" "ev_cal e0 = cid"
    "ev_id e0 = eid" "event_game_id (ev_body e0) = Some gid" by blast
  from assms e0 show "eid < fresh (after_list cid now cl)"
    by (auto simp: client_ok_def list_all_iff)
  fix e assume e: "e \<in> set (store (after_list cid now cl))" "is_event cid eid e"
  from assms have "distinct (map (\<lambda>e. (ev_cal e, ev_id e)) (store cl))"
    by (simp add: client_ok_def)
  from distinct_map_eq [OF this, of e e0] e e0 have "e = e0"
    by (simp add: is_event_def)
  with e0 show "event_game_id (ev_body e) = Some gid" by simp
qed

lemma listing_unindexed_absent:
  assumes nf: "\<not> faults cl (length (calls cl))"
    and win: "\<forall>e\<in>set (store cl). ev_cal e = cid \<and> event_game_id (ev_body e) \<noteq> None \<longrightarrow>
                in_window cl (now @ ''Z'') (ev_body e)"
  shows "unindexed_absent cid (listing_index cid now cl) games (after_list cid now cl)"
  unfolding unindexed_absent_def
proof (intro ballI allI impI notI)
  fix g :: game and gid
  assume a: "game_id g = Some gid \<and> listing_index cid now cl gid = None"
    and k: "(cid, gid) \<in> set (event_keys (store (after_list cid now cl)))"
  from k obtain e where e: "e \<in> set (store cl)" "ev_cal e = cid"
    "event_game_id (ev_body e) = Some gid"
    by (auto simp: event_keys_mem)
  with win have "in_window cl (now @ ''Z'') (ev_body e)" by auto
  from listing_index_None [OF _ nf e(1,2) this] a e(3) show False by blast
qed

lemma sync_one_event_per_game:
  assumes ok: "client_ok cl" and one: "one_event_per_game (store cl)"
    and nf: "\<not> faults cl (length (calls cl))"
    and win: "\<forall>e\<in>set (store cl). ev_cal e = cid \<and> event_game_id (ev_body e) \<noteq> None \<longrightarrow>
                in_window cl (now @ ''Z'') (ev_body e)"
    and dg: "distinct (map game_id games)" and st: "\<forall>g\<in>set games. tag_stable g"
  shows "one_event_per_game (store (snd (sync_games_to_calendar creds cid games now cl)))"
proof (cases "build_calendar_service creds")
  case (Inl err)
  with one show ?thesis by (simp add: sync_games_to_calendar_raises)
next
  case (Inr u)
  then have b: "build_calendar_service creds = Inr ()" by simp
  from one have "distinct (event_keys (store (after_list cid now cl)))"
    by (simp add: one_event_per_game_def)
  from sync_each_one_event_per_game [OF listing_index_sound [OF ok]
         listing_unindexed_absent [OF nf win] this dg st]
  show ?thesis
    by (simp add: sync_games_to_calendar_eq [OF b] one_event_per_game_def)
qed

text \<open>
  C1 (corrected). A run keeps at most one event per (calendar id, game id) pair when the
  calendar state has that property and unique event ids, the listing succeeds and returns
  every tagged event of the calendar, the game ids of the input list are pairwise
  distinct, and the tags of the input games are stable. Failures of create and update
  calls and any credentials are allowed.
\<close>

theorem one_event_per_game_kept:
  assumes "client_ok cl" and "one_event_per_game (store cl)"
    and "\<not> faults cl (length (calls cl))"
    and "\<forall>e\<in>set (store cl). ev_cal e = cid \<and> event_game_id (ev_body e) \<noteq> None \<longrightarrow>
           in_window cl (now @ ''Z'') (ev_body e)"
    and "distinct (map game_id games)" and "\<forall>g\<in>set games. tag_stable g"
  shows "one_event_per_game (store (snd (sync_games_to_calendar creds cid games now cl)))"
  using assms by (rule sync_one_event_per_game)

lemma strip_short_ids: "strip ''G1'' = ''G1''" "strip ''G2'' = ''G2''" "strip ''G3'' = ''G3''"
  by (simp_all add: strip_def py_isspace_def)

lemma event_game_id_short_ids:
  "event_game_id (sample_event ''1'' ''G1'') = Some ''G1''"
  "event_game_id (sample_event ''1'' ''G2'') = Some ''G2''"
  "event_game_id (sample_event ''1'' ''G3'') = Some ''G3''"
  by (simp_all add: event_game_id_sample tag_of_line_def strip_def py_isspace_def)

lemma first_game_client_simps [simp]:
  "store first_game_client =
     [\<lparr>ev_cal = ''cal'', ev_id = 0, ev_body = sample_event ''1'' ''G1''\<rparr>]"
  "calls first_game_client = []" "fresh first_game_client = 1"
  "\<not> faults first_game_client k" "in_window first_game_client t b"
  by (simp_all add: first_game_client_def empty_client_def)

lemma first_game_run:
  "sync_games_to_calendar test_credentials ''cal'' two_games ''2024-09-01T12:00:00''
       first_game_client =
     (Inr 2,
      first_game_client
        \<lparr>calls := [ListCall ''cal'' ''2024-09-01T12:00:00Z'',
                   UpdateCall ''cal'' 0 (sample_event ''1'' ''G1''),
                   InsertCall ''cal'' (sample_event ''1'' ''G2'')],
         store := [\<lparr>ev_cal = ''cal'', ev_id = 0, ev_body = sample_event ''1'' ''G1''\<rparr>,
                   \<lparr>ev_cal = ''cal'', ev_id = 1, ev_body = sample_event ''1'' ''G2''\<rparr>],
         fresh := 2\<rparr>)"
  by (simp add: sync_games_to_calendar_eq listing_index_def listed_def two_games_def
        after_list_def event_game_id_short_ids
        sync_game_def create_event_game_with_id events_insert_def events_update_def
        is_event_def Let_def)

theorem one_event_per_game_witness:
  "client_ok first_game_client \<and> one_event_per_game (store first_game_client) \<and>
   \<not> faults first_game_client (length (calls first_game_client)) \<and>
   in_window first_game_client ''2024-09-01T12:00:00Z'' (sample_event ''1'' ''G1'') \<and>
   distinct (map game_id two_games) \<and>
   tag_stable (game_with_id ''G1'') \<and> tag_stable (game_with_id ''G2'') \<and>
   one_event_per_game
     (store (snd (sync_games_to_calendar test_credentials ''cal'' two_games
                    ''2024-09-01T12:00:00'' first_game_client))) \<and>
   event_keys
     (store (snd (sync_games_to_calendar test_credentials ''cal'' two_games
                    ''2024-09-01T12:00:00'' first_game_client))) =
     [(''cal'', ''G1''), (''cal'', ''G2'')]"
proof -
  have ok: "client_ok first_game_client" by (simp add: client_ok_def)
  have one: "one_event_per_game (store first_game_client)"
    by (simp add: one_event_per_game_def event_keys_def event_game_id_short_ids)
  have nf: "\<not> faults first_game_client (length (calls first_game_client))" by simp
  have win: "\<forall>e\<in>set (store first_game_client).
      ev_cal e = ''cal'' \<and> event_game_id (ev_body e) \<noteq> None \<longrightarrow>
      in_window first_game_client (''2024-09-01T12:00:00'' @ ''Z'') (ev_body e)"
    by simp
  have st: "tag_stable (game_with_id ''G1'')" "tag_stable (game_with_id ''G2'')"
    by (simp_all add: tag_stable_game_with_id strip_short_ids)
  then have sts: "\<forall>g\<in>set two_games. tag_stable g" by (simp add: two_games_def)
  have dg: "distinct (map game_id two_games)" by (simp add: two_games_def)
  have k: "event_keys
     (store (snd (sync_games_to_calendar test_credentials ''cal'' two_games
                    ''2024-09-01T12:00:00'' first_game_client))) =
     [(''cal'', ''G1''), (''cal'', ''G2'')]"
    by (simp add: first_game_run event_keys_def event_game_id_short_ids)
  from one_event_per_game_kept [OF ok one nf win dg sts, of test_credentials]
  show ?thesis
    by (simp only: ok one nf st dg k first_game_client_simps(5) simp_thms)
qed

text \<open>
  As stated for every input list, the claim fails: the two sample records share their
  game id, the calendar without events has the property, and the run issues two creates
  and stores two events under that game id.
\<close>

theorem one_event_per_game_counterexample:
  "one_event_per_game (store empty_client) \<and>
   game_id test_game = game_id test_game_week_2 \<and>
   filter is_insert
     (calls (snd (sync_games_to_calendar test_credentials ''cal''
        [test_game, test_game_week_2] ''2024-09-01T12:00:00'' empty_client))) =
     [InsertCall ''cal'' test_event, InsertCall ''cal'' (sample_event ''2'' ''2024_W1_TEST'')] \<and>
   event_keys
     (store (snd (sync_games_to_calendar test_credentials ''cal''
        [test_game, test_game_week_2] ''2024-09-01T12:00:00'' empty_client))) =
     [(''cal'', ''2024_W1_TEST''), (''cal'', ''2024_W1_TEST'')] \<and>
   \<not> one_event_per_game
     (store (snd (sync_games_to_calendar test_credentials ''cal''
        [test_game, test_game_week_2] ''2024-09-01T12:00:00'' empty_client)))"
proof -
  have t: "event_game_id (sample_event ''2'' ''2024_W1_TEST'') = Some ''2024_W1_TEST''"
    by (simp add: event_game_id_sample tag_of_line_def strip_def py_isspace_def)
  from sync_two_records [OF build_calendar_service_test create_event_test_game
          create_event_week_2 game_id_week_2 [symmetric], of empty_client "''cal''"
          "''2024-09-01T12:00:00''"]
  show ?thesis
    by (simp add: one_event_per_game_def event_keys_def event_game_id_test_event t
          game_id_week_2)
qed

section \<open>Running twice\<close>

lemma has_event_kept:
  assumes s: "sync_game cid idx g cl = (r, cl')" and i: "index_sound cid idx cl"
    and st: "tag_stable g" and w: "\<And>ev. create_event_from_game g = Inr ev \<Longrightarrow> W ev"
    and h: "has_event cid W cl gid0"
  shows "has_event cid W cl' gid0"
proof -
  from h obtain e where e: "e \<in> set (store cl)" "ev_cal e = cid"
    "event_game_id (ev_body e) = Some gid0" "W (ev_body e)"
    by (auto simp: has_event_def list_ex_iff)
  from s show ?thesis
  proof (cases rule: sync_game_store_cases)
    case same
    with h show ?thesis by (simp add: has_event_def)
  next
    case (updated ev gid eid)
    have tag: "event_game_id ev = Some gid"
      using event_game_id_stable [OF st updated(1)] updated(2) by simp
    let ?f = "\<lambda>e. if is_event cid eid e then e\<lparr>ev_body := ev\<rparr> else e"
    from e(1) updated(6) have in': "?f e \<in> set (store cl')" by simp
    have "ev_cal (?f e) = cid \<and> event_game_id (ev_body (?f e)) = Some gid0 \<and> W (ev_body (?f e))"
    proof (cases "is_event cid eid e")
      case True
      with i updated(3) e(1) have "event_game_id (ev_body e) = Some gid"
        by (auto simp: index_sound_def)
      with e(3) have "gid = gid0" by simp
      with True tag e(2) w [OF updated(1)] show ?thesis by simp
    next
      case False
      with e show ?thesis by simp
    qed
    with in' show ?thesis unfolding has_event_def list_ex_iff by blast
  next
    case (inserted ev gid)
    with e show ?thesis by (auto simp: has_event_def list_ex_iff)
  qed
qed

lemma has_event_made:
  assumes s: "sync_game cid idx g cl = (r, cl')" and t: "targets_exist cid idx cl"
    and nf: "\<not> faults cl (length (calls cl))"
    and st: "tag_stable g" and ev: "create_event_from_game g = Inr ev"
    and gid: "game_id g = Some gid" and w: "W ev"
  shows "has_event cid W cl' gid"
proof -
  have tag: "event_game_id ev = Some gid"
    using event_game_id_stable [OF st ev] gid by simp
  show ?thesis
  proof (cases "idx gid")
    case None
    with s ev gid nf have
      "store cl' = store cl @ [\<lparr>ev_cal = cid, ev_id = fresh cl, ev_body = ev\<rparr>]"
      by (auto simp: sync_game_def events_insert_def Let_def)
    with tag w show ?thesis by (simp add: has_event_def)
  next
    case (Some eid)
    with t have ex: "list_ex (is_event cid eid) (store cl)" by (auto simp: targets_exist_def)
    with s ev gid nf Some have
      "store cl' = map (\<lambda>e. if is_event cid eid e then e\<lparr>ev_body := ev\<rparr> else e) (store cl)"
      by (auto simp: sync_game_def events_update_def Let_def)
    moreover from ex obtain e where "e \<in> set (store cl)" "is_event cid eid e"
      by (auto simp: list_ex_iff)
    ultimately have "e\<lparr>ev_body := ev\<rparr> \<in> set (store cl')" "ev_cal (e\<lparr>ev_body := ev\<rparr>) = cid"
      by (force simp: is_event_def)+
    with tag w show ?thesis unfolding has_event_def list_ex_iff
      by (metis (mono_tags, lifting) cal_event.select_convs(3) cal_event.surjective
            cal_event.update_convs(3))
  qed
qed

lemma transformed_Cons_accepted:
  "create_event_from_game g = Inr ev \<Longrightarrow> transformed (g # gs) = ev # transformed gs"
  by (simp add: transformed_def)

lemma transformed_Cons_refused:
  "create_event_from_game g = Inl err \<Longrightarrow> transformed (g # gs) = transformed gs"
  by (simp add: transformed_def)

lemma sync_each_covers:
  assumes "index_sound cid idx cl" and "targets_exist cid idx cl"
    and "\<forall>k. \<not> faults cl k" and "\<forall>g\<in>set games. tag_stable g"
    and "\<forall>ev\<in>set (transformed games). W ev"
    and "\<forall>gid\<in>D. has_event cid W cl gid"
  shows "(\<forall>gid\<in>D. has_event cid W (snd (sync_each cid idx games c cl)) gid) \<and>
         (\<forall>g\<in>set games. \<forall>ev gid. create_event_from_game g = Inr ev \<and> game_id g = Some gid \<longrightarrow>
            has_event cid W (snd (sync_each cid idx games c cl)) gid)"
  using assms
proof (induction games arbitrary: c cl D)
  case Nil
  then show ?case by simp
next
  case (Cons g gs)
  obtain r cl1 where s: "sync_game cid idx g cl = (r, cl1)" by force
  from Cons.prems(4) have st: "tag_stable g" and sts: "\<forall>g\<in>set gs. tag_stable g" by simp_all
  have wg: "W ev" if "create_event_from_game g = Inr ev" for ev
    using Cons.prems(5) transformed_Cons_accepted [OF that, of gs] by simp
  have ws: "\<forall>ev\<in>set (transformed gs). W ev"
    using Cons.prems(5)
    by (cases "create_event_from_game g")
       (simp_all add: transformed_Cons_accepted transformed_Cons_refused)
  have i1: "index_sound cid idx cl1" by (rule index_sound_step [OF s Cons.prems(1) st])
  have t1: "targets_exist cid idx cl1" by (rule sync_game_targets [OF s Cons.prems(2)])
  from sync_game_frame(2) [OF s] Cons.prems(3) have f1: "\<forall>k. \<not> faults cl1 k" by simp
  define D1 where "D1 = D \<union> {gid. \<exists>ev. create_event_from_game g = Inr ev \<and> game_id g = Some gid}"
  have d1: "\<forall>gid\<in>D1. has_event cid W cl1 gid"
  proof
    fix gid assume "gid \<in> D1"
    then consider "gid \<in> D" | ev where "create_event_from_game g = Inr ev" "game_id g = Some gid"
      by (auto simp: D1_def)
    then show "has_event cid W cl1 gid"
    proof cases
      case 1
      with Cons.prems(6) have "has_event cid W cl gid" by simp
      from has_event_kept [where W = W, OF s Cons.prems(1) st wg this] show ?thesis .
    next
      case 2
      from Cons.prems(3) have "\<not> faults cl (length (calls cl))" by simp
      from has_event_made [where W = W, OF s Cons.prems(2) this st 2(1,2) wg [OF 2(1)]]
      show ?thesis .
    qed
  qed
  from Cons.IH [OF i1 t1 f1 sts ws d1] have
    ih: "\<And>c1. (\<forall>gid\<in>D1. has_event cid W (snd (sync_each cid idx gs c1 cl1)) gid) \<and>
         (\<forall>g\<in>set gs. \<forall>ev gid. create_event_from_game g = Inr ev \<and> game_id g = Some gid \<longrightarrow>
            has_event cid W (snd (sync_each cid idx gs c1 cl1)) gid)" by blast
  obtain c1 where step: "sync_each cid idx (g # gs) c cl = sync_each cid idx gs c1 cl1"
    using s by (cases r) auto
  from ih [of c1] show ?case
    unfolding step D1_def by auto
qed

lemma planned_calls_updates_only:
  assumes "\<forall>g\<in>set games. \<forall>ev gid. create_event_from_game g = Inr ev \<and> game_id g = Some gid \<longrightarrow>
             idx gid \<noteq> None"
  shows "list_all is_update (planned_calls cid idx games)"
  using assms
proof (induction games)
  case Nil
  then show ?case by (simp add: planned_calls_Nil)
next
  case (Cons g gs)
  then have ih: "list_all is_update (planned_calls cid idx gs)" by simp
  show ?case
  proof (cases "create_event_from_game g")
    case (Inl err)
    with ih show ?thesis by (simp add: planned_calls_refused)
  next
    case (Inr ev)
    then obtain gid where gid: "game_id g = Some gid" using create_event_game_id by blast
    with Cons.prems Inr obtain eid where "idx gid = Some eid" by auto
    with ih Inr gid show ?thesis by (simp add: planned_calls_update [where gid = gid])
  qed
qed

lemma updates_no_insert: "list_all is_update cs \<Longrightarrow> filter is_insert cs = []"
proof (induction cs)
  case Nil
  then show ?case by simp
next
  case (Cons c cs)
  then show ?case by (cases c) simp_all
qed

lemma sync_game_store_length:
  assumes "sync_game cid idx g cl = (r, cl')"
  shows "length (store cl') \<le> Suc (length (store cl))"
    and "filter is_insert (planned_calls cid idx [g]) = [] \<Longrightarrow>
         length (store cl') = length (store cl)"
proof -
  from assms have "length (store cl') \<le> Suc (length (store cl)) \<and>
    (filter is_insert (planned_calls cid idx [g]) = [] \<longrightarrow>
       length (store cl') = length (store cl))"
  proof (cases rule: sync_game_store_cases)
    case same
    then show ?thesis by simp
  next
    case (updated ev gid eid)
    then show ?thesis by simp
  next
    case (inserted ev gid)
    then show ?thesis
      by (simp add: planned_calls_insert [where gid = gid] planned_calls_Nil)
  qed
  then show "length (store cl') \<le> Suc (length (store cl))"
    and "filter is_insert (planned_calls cid idx [g]) = [] \<Longrightarrow>
         length (store cl') = length (store cl)" by simp_all
qed

lemma sync_each_store_length:
  "length (store (snd (sync_each cid idx games c cl))) \<le> length (store cl) + length games"
proof (induction games arbitrary: c cl)
  case Nil
  then show ?case by simp
next
  case (Cons g gs)
  obtain r cl1 where s: "sync_game cid idx g cl = (r, cl1)" by force
  obtain c1 where step: "sync_each cid idx (g # gs) c cl = sync_each cid idx gs c1 cl1"
    using s by (cases r) auto
  from Cons.IH [of c1 cl1] sync_game_store_length(1) [OF s] show ?case
    unfolding step by simp
qed

lemma sync_each_store_length_updates:
  "filter is_insert (planned_calls cid idx games) = [] \<Longrightarrow>
   length (store (snd (sync_each cid idx games c cl))) = length (store cl)"
proof (induction games arbitrary: c cl)
  case Nil
  then show ?case by simp
next
  case (Cons g gs)
  obtain r cl1 where s: "sync_game cid idx g cl = (r, cl1)" by force
  obtain c1 where step: "sync_each cid idx (g # gs) c cl = sync_each cid idx gs c1 cl1"
    using s by (cases r) auto
  from Cons.prems have p: "filter is_insert (planned_calls cid idx [g]) = []"
    "filter is_insert (planned_calls cid idx gs) = []"
    by (simp_all add: planned_calls_Cons [of cid idx g gs])
  from Cons.IH [OF p(2), of c1 cl1] sync_game_store_length(2) [OF s p(1)] show ?case
    unfolding step by simp
qed

lemma succeeded_all: "\<forall>k. \<not> faults cl k \<Longrightarrow> succeeded cl n = n"
  by (simp add: succeeded_def)

lemma sync_frame:
  "faults (snd (sync_games_to_calendar creds cid games now cl)) = faults cl \<and>
   in_window (snd (sync_games_to_calendar creds cid games now cl)) = in_window cl"
proof (cases "build_calendar_service creds")
  case (Inl err)
  then show ?thesis by (simp add: sync_games_to_calendar_raises)
next
  case (Inr u)
  then have b: "build_calendar_service creds = Inr ()" by simp
  obtain n cl' where
    s: "sync_each cid (listing_index cid now cl) games 0 (after_list cid now cl) = (n, cl')"
    by force
  from sync_each_frame [OF s] show ?thesis
    by (simp add: sync_games_to_calendar_eq [OF b] s)
qed

lemma sync_store_length:
  "length (store (snd (sync_games_to_calendar creds cid games now cl)))
     \<le> length (store cl) + length games"
proof (cases "build_calendar_service creds")
  case (Inl err)
  then show ?thesis by (simp add: sync_games_to_calendar_raises)
next
  case (Inr u)
  then have b: "build_calendar_service creds = Inr ()" by simp
  from sync_each_store_length [of cid "listing_index cid now cl" games 0 "after_list cid now cl"]
  show ?thesis by (simp add: sync_games_to_calendar_eq [OF b])
qed

lemma sync_twice:
  assumes b: "build_calendar_service creds = Inr ()" and nf: "\<forall>k. \<not> faults cl k"
    and ok: "client_ok cl" and st: "\<forall>g\<in>set games. tag_stable g"
    and win: "\<forall>ev\<in>set (transformed games). in_window cl (now2 @ ''Z'') ev"
    and cl1: "cl1 = snd (sync_games_to_calendar creds cid games now1 cl)"
    and cl2: "cl2 = snd (sync_games_to_calendar creds cid games now2 cl1)"
  shows "filter is_insert (drop (length (calls cl1)) (calls cl2)) = [] \<and>
         list_all is_update (drop (Suc (length (calls cl1))) (calls cl2)) \<and>
         length (store cl2) = length (store cl1) \<and>
         length (store cl1) \<le> length (store cl) + length games \<and>
         fst (sync_games_to_calendar creds cid games now1 cl) = Inr (length (transformed games)) \<and>
         fst (sync_games_to_calendar creds cid games now2 cl1) = Inr (length (transformed games))"
proof -
  let ?W = "in_window cl (now2 @ ''Z'')"
  let ?idx1 = "listing_index cid now1 cl"
  let ?idx2 = "listing_index cid now2 cl1"
  have cl1': "cl1 = snd (sync_each cid ?idx1 games 0 (after_list cid now1 cl))"
    by (simp add: cl1 sync_games_to_calendar_eq [OF b])
  from sync_frame [of creds cid games now1 cl] cl1
  have f1: "faults cl1 = faults cl" and w1: "in_window cl1 = in_window cl" by simp_all
  from nf f1 have nf1: "\<forall>k. \<not> faults cl1 k" by simp
  from nf have nfa: "\<forall>k. \<not> faults (after_list cid now1 cl) k" by simp
  have "\<forall>gid\<in>{}. has_event cid ?W (after_list cid now1 cl) gid" by simp
  from sync_each_covers [where W = ?W and c = 0, OF listing_index_sound [OF ok]
         targets_exist_listing nfa st win this]
  have cov: "\<forall>g\<in>set games. \<forall>ev gid.
      create_event_from_game g = Inr ev \<and> game_id g = Some gid \<longrightarrow> has_event cid ?W cl1 gid"
    by (simp add: cl1')
  have idx2: "\<forall>g\<in>set games. \<forall>ev gid.
      create_event_from_game g = Inr ev \<and> game_id g = Some gid \<longrightarrow> ?idx2 gid \<noteq> None"
  proof (intro ballI allI impI notI)
    fix g ev gid
    assume g: "g \<in> set games"
      and a: "create_event_from_game g = Inr ev \<and> game_id g = Some gid"
      and n: "?idx2 gid = None"
    from cov g a have "has_event cid ?W cl1 gid" by blast
    then obtain e where e: "e \<in> set (store cl1)" "ev_cal e = cid"
      "event_game_id (ev_body e) = Some gid" "in_window cl1 (now2 @ ''Z'') (ev_body e)"
      by (auto simp: has_event_def list_ex_iff w1)
    from nf1 have "\<not> faults cl1 (length (calls cl1))" by simp
    from listing_index_None [OF n this e(1,2,4)] e(3) show False by simp
  qed
  have upd: "list_all is_update (planned_calls cid ?idx2 games)"
    by (rule planned_calls_updates_only [OF idx2])
  then have noins: "filter is_insert (planned_calls cid ?idx2 games) = []"
    by (rule updates_no_insert)
  note r2 = sync_count_and_calls [OF b, of cid games now2 cl1]
  note r1 = sync_count_and_calls [OF b, of cid games now1 cl]
  from r2 cl2 have c2: "calls cl2 =
      calls cl1 @ ListCall cid (now2 @ ''Z'') # planned_calls cid ?idx2 games" by simp
  have len2: "length (store cl2) = length (store cl1)"
    using sync_each_store_length_updates [OF noins, of 0 "after_list cid now2 cl1"]
    by (simp add: cl2 sync_games_to_calendar_eq [OF b])
  have len1: "length (store cl1) \<le> length (store cl) + length games"
    unfolding cl1 by (rule sync_store_length)
  have s1: "succeeded (after_list cid now1 cl) (length (transformed games))
              = length (transformed games)"
    using nf by (intro succeeded_all) simp
  have s2: "succeeded (after_list cid now2 cl1) (length (transformed games))
              = length (transformed games)"
    using nf1 by (intro succeeded_all) simp
  from c2 upd noins len2 len1 r1 r2 s1 s2 show ?thesis by simp
qed

text \<open>
  C2 (corrected). Against a provider that does not fail, with unique event ids, for a
  game list whose tags are stable and whose events the second listing returns: both runs
  return the number of accepted games, the second run issues its listing call and then
  only update calls (no create), and so leaves the number of events as the first run
  left it; the first run adds at most one event per input record.
\<close>

theorem second_run_only_updates:
  assumes "build_calendar_service creds = Inr ()" and "\<forall>k. \<not> faults cl k"
    and "client_ok cl" and "\<forall>g\<in>set games. tag_stable g"
    and "\<forall>ev\<in>set (transformed games). in_window cl (now2 @ ''Z'') ev"
    and "cl1 = snd (sync_games_to_calendar creds cid games now1 cl)"
    and "cl2 = snd (sync_games_to_calendar creds cid games now2 cl1)"
  shows "filter is_insert (drop (length (calls cl1)) (calls cl2)) = [] \<and>
         list_all is_update (drop (Suc (length (calls cl1))) (calls cl2)) \<and>
         length (store cl2) = length (store cl1) \<and>
         length (store cl1) \<le> length (store cl) + length games \<and>
         fst (sync_games_to_calendar creds cid games now1 cl) = Inr (length (transformed games)) \<and>
         fst (sync_games_to_calendar creds cid games now2 cl1) = Inr (length (transformed games))"
  using assms by (rule sync_twice)

lemma two_games_first_run:
  "sync_games_to_calendar test_credentials ''cal'' two_games ''2024-09-01T12:00:00''
       empty_client = (Inr 2, two_games_client)"
  by (simp add: sync_games_to_calendar_eq listing_index_def listed_def two_games_def
        after_list_def two_games_client_def empty_client_def
        sync_game_def create_event_game_with_id events_insert_def Let_def)

lemma two_games_second_run:
  "sync_games_to_calendar test_credentials ''cal'' two_games ''2024-09-02T12:00:00''
       two_games_client =
     (Inr 2,
      two_games_client
        \<lparr>calls := calls two_games_client @
                  [ListCall ''cal'' ''2024-09-02T12:00:00Z'',
                   UpdateCall ''cal'' 0 (sample_event ''1'' ''G1''),
                   UpdateCall ''cal'' 1 (sample_event ''1'' ''G2'')]\<rparr>)"
  by (simp add: sync_games_to_calendar_eq listing_index_def listed_def two_games_def
        after_list_def two_games_client_def empty_client_def event_game_id_short_ids
        sync_game_def create_event_game_with_id events_update_def is_event_def Let_def)

theorem second_run_only_updates_witness:
  "build_calendar_service test_credentials = Inr () \<and>
   faults empty_client = (\<lambda>k. False) \<and> client_ok empty_client \<and>
   tag_stable (game_with_id ''G1'') \<and> tag_stable (game_with_id ''G2'') \<and>
   transformed two_games = [sample_event ''1'' ''G1'', sample_event ''1'' ''G2''] \<and>
   in_window empty_client ''2024-09-02T12:00:00Z'' (sample_event ''1'' ''G1'') \<and>
   in_window empty_client ''2024-09-02T12:00:00Z'' (sample_event ''1'' ''G2'') \<and>
   sync_games_to_calendar test_credentials ''cal'' two_games ''2024-09-01T12:00:00''
     empty_client = (Inr 2, two_games_client) \<and>
   fst (sync_games_to_calendar test_credentials ''cal'' two_games ''2024-09-02T12:00:00''
          two_games_client) = Inr 2 \<and>
   drop (length (calls two_games_client))
     (calls (snd (sync_games_to_calendar test_credentials ''cal'' two_games
                    ''2024-09-02T12:00:00'' two_games_client))) =
     [ListCall ''cal'' ''2024-09-02T12:00:00Z'',
      UpdateCall ''cal'' 0 (sample_event ''1'' ''G1''),
      UpdateCall ''cal'' 1 (sample_event ''1'' ''G2'')] \<and>
   length (store two_games_client) = 2 \<and>
   length (store (snd (sync_games_to_calendar test_credentials ''cal'' two_games
                         ''2024-09-02T12:00:00'' two_games_client))) = 2"
proof -
  have nf: "\<forall>k. \<not> faults empty_client k" and nf': "faults empty_client = (\<lambda>k. False)"
    by (simp_all add: empty_client_def)
  have ok: "client_ok empty_client" by (simp add: client_ok_def)
  have st: "tag_stable (game_with_id ''G1'')" "tag_stable (game_with_id ''G2'')"
    by (simp_all add: tag_stable_game_with_id strip_short_ids)
  then have sts: "\<forall>g\<in>set two_games. tag_stable g" by (simp add: two_games_def)
  have tr: "transformed two_games = [sample_event ''1'' ''G1'', sample_event ''1'' ''G2'']"
    by (simp add: transformed_def two_games_def create_event_game_with_id)
  have w: "in_window empty_client t ev" for t ev by (simp add: empty_client_def)
  then have win: "\<forall>ev\<in>set (transformed two_games).
      in_window empty_client (''2024-09-02T12:00:00'' @ ''Z'') ev" by simp
  have c1: "two_games_client = snd (sync_games_to_calendar test_credentials ''cal'' two_games
      ''2024-09-01T12:00:00'' empty_client)"
    by (simp add: two_games_first_run)
  have len: "length (store two_games_client) = 2"
    by (simp add: two_games_client_def)
  note t = second_run_only_updates [OF build_calendar_service_test nf ok sts win c1 refl]
  from t have l2: "length (store (snd (sync_games_to_calendar test_credentials ''cal'' two_games
                         ''2024-09-02T12:00:00'' two_games_client))) = 2"
    by (simp add: len)
  from t have r2: "fst (sync_games_to_calendar test_credentials ''cal'' two_games
      ''2024-09-02T12:00:00'' two_games_client) = Inr 2"
    by (simp add: tr)
  have d: "drop (length (calls two_games_client))
     (calls (snd (sync_games_to_calendar test_credentials ''cal'' two_games
                    ''2024-09-02T12:00:00'' two_games_client))) =
     [ListCall ''cal'' ''2024-09-02T12:00:00Z'',
      UpdateCall ''cal'' 0 (sample_event ''1'' ''G1''),
      UpdateCall ''cal'' 1 (sample_event ''1'' ''G2'')]"
    by (simp add: two_games_second_run)
  show ?thesis
    by (simp only: build_calendar_service_test nf' ok st tr w two_games_first_run r2 d len l2
          simp_thms)
qed

text \<open>
  As stated for every game list, the claim fails: the two sample records share their game
  id, so the list has one distinct game id; after the two runs on the calendar without
  events (the second run issuing updates only) the calendar holds two events.
\<close>

theorem second_run_counterexample:
  "length (remdups (map game_id [test_game, test_game_week_2])) = 1 \<and>
   store empty_client = [] \<and>
   sync_games_to_calendar test_credentials ''cal'' [test_game, test_game_week_2]
     ''2024-09-01T12:00:00'' empty_client = (Inr 2, same_id_client) \<and>
   length (store (snd (sync_games_to_calendar test_credentials ''cal''
      [test_game, test_game_week_2] ''2024-09-02T12:00:00'' same_id_client))) = 2"
proof -
  have r1: "sync_games_to_calendar test_credentials ''cal'' [test_game, test_game_week_2]
     ''2024-09-01T12:00:00'' empty_client = (Inr 2, same_id_client)"
    using sync_two_records [OF build_calendar_service_test create_event_test_game
          create_event_week_2 game_id_week_2 [symmetric], of empty_client "''cal''"
          "''2024-09-01T12:00:00''"]
    by (simp add: same_id_client_def)
  have t: "event_game_id (sample_event ''2'' ''2024_W1_TEST'') = Some ''2024_W1_TEST''"
    by (simp add: event_game_id_sample tag_of_line_def strip_def py_isspace_def)
  have g: "game_id test_game = Some ''2024_W1_TEST''" "game_id test_game_week_2 = Some ''2024_W1_TEST''"
    by (simp_all add: test_game_def test_game_week_2_def)
  have r2: "length (store (snd (sync_games_to_calendar test_credentials ''cal''
      [test_game, test_game_week_2] ''2024-09-02T12:00:00'' same_id_client))) = 2"
    by (simp add: sync_games_to_calendar_eq listing_index_def listed_def
        after_list_def same_id_client_def empty_client_def event_game_id_test_event t g
        sync_game_def create_event_test_game create_event_week_2 events_update_def
        is_event_def Let_def)
  from r1 r2 show ?thesis by (simp add: g)
qed

section \<open>The last-listed duplicate in a run\<close>

lemma planned_update_mem:
  assumes "g \<in> set games" "create_event_from_game g = Inr ev" "game_id g = Some gid"
    "idx gid = Some eid"
  shows "UpdateCall cid eid ev \<in> set (planned_calls cid idx games)"
  using assms(1)
proof (induction games)
  case Nil
  then show ?case by simp
next
  case (Cons a gs)
  show ?case
  proof (cases "a = g")
    case True
    with assms show ?thesis by (simp add: planned_calls_update [where gid = gid])
  next
    case False
    with Cons have "UpdateCall cid eid ev \<in> set (planned_calls cid idx gs)" by simp
    then show ?thesis by (simp add: planned_calls_Cons [of cid idx a gs])
  qed
qed

lemma planned_update_source:
  "UpdateCall c i b \<in> set (planned_calls cid idx games) \<Longrightarrow> \<exists>gid. idx gid = Some i"
proof (induction games)
  case Nil
  then show ?case by (simp add: planned_calls_Nil)
next
  case (Cons a gs)
  from Cons.prems have "UpdateCall c i b \<in> set (planned_calls cid idx [a]) \<or>
      UpdateCall c i b \<in> set (planned_calls cid idx gs)"
    by (simp add: planned_calls_Cons [of cid idx a gs])
  then show ?case
  proof
    assume "UpdateCall c i b \<in> set (planned_calls cid idx [a])"
    then show ?thesis
      by (auto simp: planned_calls_def split: sum.splits option.splits)
  next
    assume "UpdateCall c i b \<in> set (planned_calls cid idx gs)"
    then show ?thesis by (rule Cons.IH)
  qed
qed

lemma listing_index_inj:
  assumes d: "distinct (map (\<lambda>e. (ev_cal e, ev_id e)) (store cl))"
    and a: "listing_index cid now cl g1 = Some eid" and b: "listing_index cid now cl g2 = Some eid"
  shows "g1 = g2"
proof -
  from listing_index_Some [OF a] obtain e1 where e1: "e1 \<in> set (store cl)" "ev_cal e1 = cid"
    "ev_id e1 = eid" "event_game_id (ev_body e1) = Some g1" by blast
  from listing_index_Some [OF b] obtain e2 where e2: "e2 \<in> set (store cl)" "ev_cal e2 = cid"
    "ev_id e2 = eid" "event_game_id (ev_body e2) = Some g2" by blast
  from distinct_map_eq [OF d e1(1) e2(1)] e1 e2 have "e1 = e2" by simp
  with e1 e2 show ?thesis by simp
qed

lemma other_duplicate_not_indexed:
  assumes d: "distinct (map (\<lambda>e. (ev_cal e, ev_id e)) (store cl))"
    and dups: "dups = filter (\<lambda>e. event_game_id (ev_body e) = Some gid) (listed cid now cl)"
    and x: "x \<in> set (butlast dups)"
  shows "listing_index cid now cl gid' \<noteq> Some (ev_id x)"
proof
  assume a: "listing_index cid now cl gid' = Some (ev_id x)"
  then have nf: "\<not> faults cl (length (calls cl))"
    by (auto simp: listing_index_def split: if_splits)
  from x have ne: "dups \<noteq> []" by auto
  from x have "x \<in> set dups" by (rule in_set_butlastD)
  then have xs: "x \<in> set (store cl)" "ev_cal x = cid" "event_game_id (ev_body x) = Some gid"
    by (auto simp: dups listed_def)
  from listing_index_Some [OF a] obtain e where e: "e \<in> set (store cl)" "ev_cal e = cid"
    "ev_id e = ev_id x" "event_game_id (ev_body e) = Some gid'" by blast
  from distinct_map_eq [OF d e(1) xs(1)] e xs have "e = x" by simp
  with e xs have "gid' = gid" by simp
  with a listing_index_last [OF nf ne [unfolded dups]] have l: "ev_id x = ev_id (last dups)"
    by (simp add: dups)
  from ne have "last dups \<in> set dups" by simp
  then have ls: "last dups \<in> set (store cl)" "ev_cal (last dups) = cid"
    by (auto simp: dups listed_def)
  from distinct_map_eq [OF d xs(1) ls(1)] xs ls l have xl: "x = last dups" by simp
  have f: "dups = filter (\<lambda>e. event_game_id (ev_body e) = Some gid \<and> ev_cal e = cid \<and>
             in_window cl (now @ ''Z'') (ev_body e)) (store cl)"
    by (auto simp: dups listed_def intro: filter_cong)
  have "distinct (store cl)" using d by (simp add: distinct_map)
  then have "distinct dups" by (subst f) simp
  moreover from ne have "dups = butlast dups @ [last dups]" by simp
  ultimately have "distinct (butlast dups @ [last dups])" by simp
  with x xl show False by simp
qed

lemma sync_game_keeps_unindexed:
  assumes s: "sync_game cid idx g cl = (r, cl')" and d: "d \<in> set (store cl)"
    and n: "\<forall>gid. idx gid \<noteq> Some (ev_id d)"
  shows "d \<in> set (store cl')"
using s proof (cases rule: sync_game_store_cases)
  case same
  with d show ?thesis by simp
next
  case (updated ev gid eid)
  from n updated(3) have "\<not> is_event cid eid d" by (auto simp: is_event_def)
  with d updated(6) show ?thesis by force
next
  case (inserted ev gid)
  with d show ?thesis by simp
qed

lemma sync_each_keeps_unindexed:
  "d \<in> set (store cl) \<Longrightarrow> \<forall>gid. idx gid \<noteq> Some (ev_id d) \<Longrightarrow>
   d \<in> set (store (snd (sync_each cid idx games c cl)))"
proof (induction games arbitrary: c cl)
  case Nil
  then show ?case by simp
next
  case (Cons g gs)
  obtain r cl1 where s: "sync_game cid idx g cl = (r, cl1)" by force
  obtain c1 where step: "sync_each cid idx (g # gs) c cl = sync_each cid idx gs c1 cl1"
    using s by (cases r) auto
  from sync_game_keeps_unindexed [OF s Cons.prems] have "d \<in> set (store cl1)" .
  from Cons.IH [OF this Cons.prems(2)] show ?case unfolding step .
qed

lemma sync_game_fresh_mono:
  assumes "sync_game cid idx g cl = (r, cl')"
  shows "fresh cl \<le> fresh cl'"
  using assms by (cases rule: sync_game_store_cases) simp_all

lemma sync_game_body_other:
  assumes s: "sync_game cid idx g cl = (r, cl')"
    and other: "\<forall>gid'. game_id g = Some gid' \<longrightarrow> idx gid' \<noteq> Some eid"
    and lt: "eid < fresh cl"
    and b0: "\<forall>e\<in>set (store cl). is_event cid eid e \<longrightarrow> ev_body e = b0"
  shows "\<forall>e\<in>set (store cl'). is_event cid eid e \<longrightarrow> ev_body e = b0"
using s proof (cases rule: sync_game_store_cases)
  case same
  with b0 show ?thesis by simp
next
  case (updated ev gid' eid')
  from other updated(2,3) have ne: "eid' \<noteq> eid" by auto
  show ?thesis
  proof (intro ballI impI)
    fix e' assume e': "e' \<in> set (store cl')" and is': "is_event cid eid e'"
    from e' updated(6) obtain e where e: "e \<in> set (store cl)"
      and eq: "e' = (if is_event cid eid' e then e\<lparr>ev_body := ev\<rparr> else e)" by auto
    from is' eq have ise: "is_event cid eid e" by (auto simp: is_event_def split: if_splits)
    with ne have "\<not> is_event cid eid' e" by (auto simp: is_event_def)
    with eq have "e' = e" by simp
    with b0 e ise show "ev_body e' = b0" by simp
  qed
next
  case (inserted ev gid')
  show ?thesis
  proof (intro ballI impI)
    fix e' assume e': "e' \<in> set (store cl')" and is': "is_event cid eid e'"
    from is' lt have "ev_id e' \<noteq> fresh cl" by (simp add: is_event_def)
    then have "e' \<noteq> \<lparr>ev_cal = cid, ev_id = fresh cl, ev_body = ev\<rparr>"
      by auto
    with e' inserted(6) have "e' \<in> set (store cl)" by simp
    with b0 is' show "ev_body e' = b0" by simp
  qed
qed

lemma sync_game_body_same:
  assumes s: "sync_game cid idx g cl = (r, cl')"
    and ev: "create_event_from_game g = Inr ev" and gid: "game_id g = Some gid"
    and idx: "idx gid = Some eid"
    and t: "targets_exist cid idx cl" and nf: "\<not> faults cl (length (calls cl))"
  shows "\<forall>e\<in>set (store cl'). is_event cid eid e \<longrightarrow> ev_body e = ev"
proof -
  from t idx have ex: "list_ex (is_event cid eid) (store cl)" by (auto simp: targets_exist_def)
  have "sync_game cid idx g cl = events_update cid eid ev cl"
    using ev gid idx by (simp add: sync_game_def)
  with s have u: "events_update cid eid ev cl = (r, cl')" by simp
  have "events_update cid eid ev cl = (Inr (), cl\<lparr>calls := calls cl @ [UpdateCall cid eid ev],
     store := map (\<lambda>e. if is_event cid eid e then e\<lparr>ev_body := ev\<rparr> else e) (store cl)\<rparr>)"
    using ex nf by (simp add: events_update_def Let_def)
  with u have "cl' = cl\<lparr>calls := calls cl @ [UpdateCall cid eid ev],
     store := map (\<lambda>e. if is_event cid eid e then e\<lparr>ev_body := ev\<rparr> else e) (store cl)\<rparr>"
    by simp
  then have st: "store cl' = map (\<lambda>e. if is_event cid eid e then e\<lparr>ev_body := ev\<rparr> else e) (store cl)"
    by simp
  show ?thesis
  proof (intro ballI impI)
    fix e' assume e': "e' \<in> set (store cl')" and is': "is_event cid eid e'"
    from e' st obtain e where e: "e \<in> set (store cl)"
      and eq: "e' = (if is_event cid eid e then e\<lparr>ev_body := ev\<rparr> else e)" by auto
    from is' eq have ise: "is_event cid eid e" by (auto simp: is_event_def split: if_splits)
    with eq show "ev_body e' = ev" by simp
  qed
qed

lemma sync_each_body:
  assumes "idx gid = Some eid" and "\<forall>gid'. idx gid' = Some eid \<longrightarrow> gid' = gid"
    and "targets_exist cid idx cl" and "\<forall>k. \<not> faults cl k" and "eid < fresh cl"
    and "\<forall>e\<in>set (store cl). is_event cid eid e \<longrightarrow> ev_body e = b0"
  shows "\<forall>e\<in>set (store (snd (sync_each cid idx games c cl))). is_event cid eid e \<longrightarrow>
           ev_body e = last (b0 # transformed (filter (\<lambda>g. game_id g = Some gid) games))"
  using assms(3-6)
proof (induction games arbitrary: c cl b0)
  case Nil
  then show ?case by (simp add: transformed_def)
next
  case (Cons g gs)
  let ?P = "\<lambda>g. game_id g = Some gid"
  obtain r cl1 where s: "sync_game cid idx g cl = (r, cl1)" by force
  obtain c1 where step: "sync_each cid idx (g # gs) c cl = sync_each cid idx gs c1 cl1"
    using s by (cases r) auto
  have t1: "targets_exist cid idx cl1" by (rule sync_game_targets [OF s Cons.prems(1)])
  from sync_game_frame(2) [OF s] Cons.prems(2) have f1: "\<forall>k. \<not> faults cl1 k" by simp
  from sync_game_fresh_mono [OF s] Cons.prems(3) have l1: "eid < fresh cl1" by simp
  have "\<exists>b1. (\<forall>e\<in>set (store cl1). is_event cid eid e \<longrightarrow> ev_body e = b1) \<and>
          last (b0 # transformed (filter ?P (g # gs))) = last (b1 # transformed (filter ?P gs))"
  proof (cases "create_event_from_game g")
    case (Inl err)
    then have "cl1 = cl" using s by (simp add: sync_game_def)
    moreover have "transformed (filter ?P (g # gs)) = transformed (filter ?P gs)"
      using Inl by (simp add: transformed_Cons_refused)
    ultimately show ?thesis using Cons.prems(4) by auto
  next
    case (Inr ev)
    then obtain gid' where g': "game_id g = Some gid'" using create_event_game_id by blast
    show ?thesis
    proof (cases "gid' = gid")
      case True
      from Cons.prems(2) have "\<not> faults cl (length (calls cl))" by simp
      from sync_game_body_same [OF s Inr g' [unfolded True] assms(1) Cons.prems(1) this]
      have "\<forall>e\<in>set (store cl1). is_event cid eid e \<longrightarrow> ev_body e = ev" .
      moreover have "transformed (filter ?P (g # gs)) = ev # transformed (filter ?P gs)"
        using Inr g' True by (simp add: transformed_Cons_accepted)
      ultimately show ?thesis by auto
    next
      case False
      with g' assms(2) have "\<forall>gid''. game_id g = Some gid'' \<longrightarrow> idx gid'' \<noteq> Some eid"
        by auto
      from sync_game_body_other [OF s this Cons.prems(3,4)]
      have "\<forall>e\<in>set (store cl1). is_event cid eid e \<longrightarrow> ev_body e = b0" .
      moreover have "filter ?P (g # gs) = filter ?P gs" using g' False by simp
      ultimately show ?thesis by auto
    qed
  qed
  then obtain b1 where b1: "\<forall>e\<in>set (store cl1). is_event cid eid e \<longrightarrow> ev_body e = b1"
    and l: "last (b0 # transformed (filter ?P (g # gs))) = last (b1 # transformed (filter ?P gs))"
    by blast
  from Cons.IH [OF t1 f1 l1 b1, of c1] show ?case
    unfolding step l .
qed

lemma sync_each_keeps_events:
  "list_ex (is_event c i) (store cl) \<Longrightarrow>
   list_ex (is_event c i) (store (snd (sync_each cid idx games n cl)))"
proof (induction games arbitrary: n cl)
  case Nil
  then show ?case by simp
next
  case (Cons g gs)
  obtain r cl1 where s: "sync_game cid idx g cl = (r, cl1)" by force
  obtain c1 where step: "sync_each cid idx (g # gs) n cl = sync_each cid idx gs c1 cl1"
    using s by (cases r) auto
  from Cons.IH [OF sync_game_keeps_events [OF s Cons.prems]] show ?case unfolding step .
qed


lemma updates_to_append:
  "updates_to cid eid (xs @ ys) = updates_to cid eid xs @ updates_to cid eid ys"
  by (induction cid eid xs rule: updates_to.induct) simp_all

lemma updates_to_planned:
  assumes idx: "idx gid = Some eid" and inj: "\<forall>gid'. idx gid' = Some eid \<longrightarrow> gid' = gid"
  shows "updates_to cid eid (planned_calls cid idx games) =
           transformed (filter (\<lambda>g. game_id g = Some gid) games)"
proof (induction games)
  case Nil
  then show ?case by (simp add: planned_calls_Nil transformed_def)
next
  case (Cons g gs)
  let ?P = "\<lambda>g. game_id g = Some gid"
  show ?case
  proof (cases "create_event_from_game g")
    case (Inl err)
    then show ?thesis
      by (simp add: planned_calls_refused transformed_Cons_refused Cons.IH)
  next
    case (Inr ev)
    then obtain gid' where g': "game_id g = Some gid'" using create_event_game_id by blast
    show ?thesis
    proof (cases "idx gid'")
      case None
      with idx have "gid' \<noteq> gid" by auto
      with None Inr g' show ?thesis
        by (simp add: planned_calls_insert [where gid = gid'] Cons.IH)
    next
      case (Some eid')
      show ?thesis
      proof (cases "gid' = gid")
        case True
        with Some idx have "eid' = eid" by simp
        with Some Inr g' True show ?thesis
          by (simp add: planned_calls_update [where gid = gid'] transformed_Cons_accepted Cons.IH)
      next
        case False
        with Some inj have "eid' \<noteq> eid" by auto
        with Some Inr g' False show ?thesis
          by (simp add: planned_calls_update [where gid = gid'] Cons.IH)
      qed
    qed
  qed
qed

lemma updates_to_unindexed:
  assumes "\<forall>gid. idx gid \<noteq> Some i"
  shows "updates_to cid i (planned_calls cid idx games) = []"
proof (induction games)
  case Nil
  then show ?case by (simp add: planned_calls_Nil)
next
  case (Cons g gs)
  have "updates_to cid i (planned_calls cid idx [g]) = []"
    using assms by (auto simp: planned_calls_def split: sum.splits option.splits)
  with Cons show ?case
    by (simp add: planned_calls_Cons [of cid idx g gs] updates_to_append)
qed

lemma find_first:
  "\<forall>x\<in>set pre. \<not> P x \<Longrightarrow> P l \<Longrightarrow> find P (pre @ l # post) = Some l"
  by (induction pre) simp_all

lemma first_tag_line_only:
  assumes "description x = Some d" "split_on (CHR 0x0A) d = pre @ l # post"
    "\<forall>l'\<in>set pre. \<not> startswith l' ''Game ID:''" "startswith l ''Game ID:''"
  shows "event_game_id x = Some (tag_of_line l)"
  using assms by (simp add: event_game_id_first_tag_line find_first)

lemma accepted_in_transformed:
  "g \<in> set games \<Longrightarrow> create_event_from_game g = Inr ev \<Longrightarrow> ev \<in> set (transformed games)"
proof (induction games)
  case Nil
  then show ?case by simp
next
  case (Cons a gs)
  show ?case
  proof (cases "create_event_from_game a")
    case (Inl err)
    with Cons show ?thesis by (auto simp: transformed_Cons_refused)
  next
    case (Inr ev')
    with Cons show ?thesis by (auto simp: transformed_Cons_accepted)
  qed
qed

lemma run_calls:
  assumes "build_calendar_service creds = Inr ()"
  shows "drop (length (calls cl)) (calls (snd (sync_games_to_calendar creds cid games now cl))) =
           ListCall cid (now @ ''Z'') # planned_calls cid (listing_index cid now cl) games"
  using sync_count_and_calls [OF assms, of cid games now cl] by simp

lemma last_listed_body:
  assumes b: "build_calendar_service creds = Inr ()"
    and g: "g \<in> set games" "create_event_from_game g = Inr ev" "game_id g = Some gid"
    and dups: "dups = filter (\<lambda>e. event_game_id (ev_body e) = Some gid) (listed cid now cl)"
    and ne: "dups \<noteq> []"
    and nf: "\<forall>k. \<not> faults cl k"
    and ok: "client_ok cl"
  shows "list_ex (is_event cid (ev_id (last dups)))
           (store (snd (sync_games_to_calendar creds cid games now cl))) \<and>
         (\<forall>e\<in>set (store (snd (sync_games_to_calendar creds cid games now cl))).
            is_event cid (ev_id (last dups)) e \<longrightarrow>
            ev_body e = last (transformed (filter (\<lambda>g. game_id g = Some gid) games)))"
proof -
  let ?idx = "listing_index cid now cl"
  let ?eid = "ev_id (last dups)"
  let ?cl0 = "after_list cid now cl"
  from ok have d: "distinct (map (\<lambda>e. (ev_cal e, ev_id e)) (store cl))"
    and fr: "list_all (\<lambda>e. ev_id e < fresh cl) (store cl)"
    by (simp_all add: client_ok_def)
  from nf have nf0: "\<not> faults cl (length (calls cl))" by simp
  have i: "?idx gid = Some ?eid"
    using listing_index_last [OF nf0 ne [unfolded dups]] by (simp add: dups)
  have inj: "\<forall>gid'. ?idx gid' = Some ?eid \<longrightarrow> gid' = gid"
    using listing_index_inj [OF d _ i] by blast
  have t: "targets_exist cid ?idx ?cl0" by (rule targets_exist_listing)
  from ne have "last dups \<in> set dups" by simp
  then have ls: "last dups \<in> set (store cl)" by (auto simp: dups listed_def)
  with fr have lt: "?eid < fresh ?cl0" by (simp add: list_all_iff)
  have nf1: "\<forall>k. \<not> faults ?cl0 k" using nf by simp
  have b0: "\<forall>e\<in>set (store ?cl0). is_event cid ?eid e \<longrightarrow> ev_body e = ev_body (last dups)"
  proof (intro ballI impI)
    fix e assume e: "e \<in> set (store ?cl0)" and ie: "is_event cid ?eid e"
    from t i have "list_ex (is_event cid ?eid) (store cl)" by (auto simp: targets_exist_def)
    from ne have "last dups \<in> set dups" by simp
    then have "ev_cal (last dups) = cid" by (auto simp: dups listed_def)
    with ie have "(ev_cal e, ev_id e) = (ev_cal (last dups), ev_id (last dups))"
      by (simp add: is_event_def)
    from distinct_map_eq [OF d _ ls this] e have "e = last dups" by simp
    then show "ev_body e = ev_body (last dups)" by simp
  qed
  have st: "store (snd (sync_games_to_calendar creds cid games now cl)) =
              store (snd (sync_each cid ?idx games 0 ?cl0))"
    by (simp add: sync_games_to_calendar_eq [OF b])
  from g have "ev \<in> set (transformed (filter (\<lambda>g. game_id g = Some gid) games))"
    by (intro accepted_in_transformed) simp_all
  then have tne: "transformed (filter (\<lambda>g. game_id g = Some gid) games) \<noteq> []" by auto
  from t i have "list_ex (is_event cid ?eid) (store ?cl0)" by (auto simp: targets_exist_def)
  from sync_each_keeps_events [OF this]
  have ex: "list_ex (is_event cid ?eid) (store (snd (sync_each cid ?idx games 0 ?cl0)))" .
  from sync_each_body [OF i inj t nf1 lt b0, of games 0] tne
  have "\<forall>e\<in>set (store (snd (sync_each cid ?idx games 0 ?cl0))). is_event cid ?eid e \<longrightarrow>
          ev_body e = last (transformed (filter (\<lambda>g. game_id g = Some gid) games))"
    by simp
  with ex show ?thesis unfolding st by blast
qed

text \<open>
  C10 (confirmed). When the listing returns one or more events tagged with the same
  game id, the index maps that game id to the event listed last; within a description
  only the first line that starts with \<open>Game ID:\<close> is read, whatever the later lines
  are. Consequently, in a run on any list of games that contains an accepted game with
  that game id: the update calls of the run that name the last-listed event carry
  exactly the events built from the list's accepted games with that game id, in list
  order, the event built from the given game among them; every other duplicate is
  named by no update call of the run and is stored afterwards as it was; and, when no
  call of the run fails, the last-listed event is stored afterwards with the event
  built from the last accepted game with that game id as its body (event ids being
  unique within a calendar and all handed out already).
\<close>

theorem last_listed_duplicate_is_updated:
  assumes "build_calendar_service creds = Inr ()"
    and "g \<in> set games"
    and "create_event_from_game g = Inr ev" and "game_id g = Some gid"
    and "dups = filter (\<lambda>e. event_game_id (ev_body e) = Some gid) (listed cid now cl)"
    and "dups \<noteq> []"
    and "\<not> faults cl (length (calls cl))"
    and "client_ok cl"
    and "cl' = snd (sync_games_to_calendar creds cid games now cl)"
    and "new_calls = drop (length (calls cl)) (calls cl')"
  shows "listing_index cid now cl gid = Some (ev_id (last dups)) \<and>
    (description x = Some desc \<and> split_on (CHR 0x0A) desc = pre @ l # post \<and>
     (\<forall>l'\<in>set pre. \<not> startswith l' ''Game ID:'') \<and> startswith l ''Game ID:'' \<longrightarrow>
       event_game_id x = Some (tag_of_line l)) \<and>
    updates_to cid (ev_id (last dups)) new_calls =
      transformed (filter (\<lambda>g. game_id g = Some gid) games) \<and>
    UpdateCall cid (ev_id (last dups)) ev \<in> set new_calls \<and>
    (\<forall>d\<in>set (butlast dups). updates_to cid (ev_id d) new_calls = [] \<and> d \<in> set (store cl')) \<and>
    ((\<forall>k. \<not> faults cl k) \<longrightarrow>
       list_ex (is_event cid (ev_id (last dups))) (store cl') \<and>
       (\<forall>e\<in>set (store cl'). is_event cid (ev_id (last dups)) e \<longrightarrow>
          ev_body e = last (transformed (filter (\<lambda>g. game_id g = Some gid) games))))"
proof -
  let ?idx = "listing_index cid now cl"
  from assms(8) have d: "distinct (map (\<lambda>e. (ev_cal e, ev_id e)) (store cl))"
    by (simp add: client_ok_def)
  have i: "?idx gid = Some (ev_id (last dups))"
    using listing_index_last [of cl gid cid now] assms(5-7) by simp
  have inj: "\<forall>gid'. ?idx gid' = Some (ev_id (last dups)) \<longrightarrow> gid' = gid"
    using listing_index_inj [OF d _ i] by blast
  have nc: "new_calls = ListCall cid (now @ ''Z'') # planned_calls cid ?idx games"
    unfolding assms(9,10) by (rule run_calls [OF assms(1)])
  have st: "store cl' = store (snd (sync_each cid ?idx games 0 (after_list cid now cl)))"
    unfolding assms(9) by (simp add: sync_games_to_calendar_eq [OF assms(1)])
  have u: "updates_to cid (ev_id (last dups)) new_calls =
      transformed (filter (\<lambda>g. game_id g = Some gid) games)"
    unfolding nc using updates_to_planned [OF i inj] by simp
  have m: "UpdateCall cid (ev_id (last dups)) ev \<in> set new_calls"
    unfolding nc
    using planned_update_mem [where idx = "?idx" and cid = cid, OF assms(2-4) i] by simp
  have o: "\<forall>d\<in>set (butlast dups). updates_to cid (ev_id d) new_calls = [] \<and> d \<in> set (store cl')"
  proof
    fix x assume x: "x \<in> set (butlast dups)"
    from other_duplicate_not_indexed [OF d assms(5) x]
    have n: "\<forall>gid. ?idx gid \<noteq> Some (ev_id x)" by blast
    from x have "x \<in> set dups" by (rule in_set_butlastD)
    then have "x \<in> set (store (after_list cid now cl))" by (auto simp: assms(5) listed_def)
    from sync_each_keeps_unindexed [OF this n] have "x \<in> set (store cl')" unfolding st .
    moreover have "updates_to cid (ev_id x) new_calls = []"
      unfolding nc using updates_to_unindexed [OF n] by simp
    ultimately show "updates_to cid (ev_id x) new_calls = [] \<and> x \<in> set (store cl')" by simp
  qed
  have f: "description x = Some desc \<and> split_on (CHR 0x0A) desc = pre @ l # post \<and>
     (\<forall>l'\<in>set pre. \<not> startswith l' ''Game ID:'') \<and> startswith l ''Game ID:'' \<longrightarrow>
       event_game_id x = Some (tag_of_line l)"
    using first_tag_line_only by blast
  have e: "(\<forall>k. \<not> faults cl k) \<longrightarrow>
       list_ex (is_event cid (ev_id (last dups))) (store cl') \<and>
       (\<forall>e\<in>set (store cl'). is_event cid (ev_id (last dups)) e \<longrightarrow>
          ev_body e = last (transformed (filter (\<lambda>g. game_id g = Some gid) games)))"
    unfolding assms(9)
    using last_listed_body [OF assms(1-6) _ assms(8)] by blast
  from i f u m o e show ?thesis by (intro conjI)
qed

lemma duplicated_run:
  "snd (sync_games_to_calendar test_credentials ''cal'' duplicate_games ''2024-09-01T12:00:00''
       duplicated_client) =
      duplicated_client
        \<lparr>calls := [ListCall ''cal'' ''2024-09-01T12:00:00Z'',
                   InsertCall ''cal'' (sample_event ''1'' ''G1''),
                   UpdateCall ''cal'' 1 (sample_event ''2'' ''2024_W1_TEST'')],
         store := [\<lparr>ev_cal = ''cal'', ev_id = 0, ev_body = test_event\<rparr>,
                   \<lparr>ev_cal = ''cal'', ev_id = 1,
                    ev_body = sample_event ''2'' ''2024_W1_TEST''\<rparr>,
                   \<lparr>ev_cal = ''cal'', ev_id = 2, ev_body = sample_event ''1'' ''G1''\<rparr>],
         fresh := 3\<rparr>"
proof -
  have g: "game_id test_game_week_2 = Some ''2024_W1_TEST''"
    by (simp add: test_game_week_2_def test_game_def)
  have f: "fresh duplicated_client = 2" by (simp add: duplicated_client_def)
  show ?thesis
    by (simp add: sync_games_to_calendar_eq listing_index_def listed_def duplicate_games_def
        after_list_def event_game_id_test_event g f
        sync_game_def create_event_game_with_id create_event_week_2 events_insert_def
        events_update_def is_event_def Let_def)
qed

lemma tagged_twice_lines:
  "split_on (CHR 0x0A) (''Week 1 NFL Game'' @ [CHR 0x0A] @ ''Game ID: A'' @
                                     [CHR 0x0A] @ ''Game ID: B'') =
     [''Week 1 NFL Game'', ''Game ID: A'', ''Game ID: B'']"
  by simp

lemma tag_A: "tag_of_line ''Game ID: A'' = ''A''"
  by (simp add: tag_of_line_def strip_def py_isspace_def)


theorem last_listed_duplicate_witness:
  "build_calendar_service test_credentials = Inr () \<and>
   test_game_week_2 \<in> set duplicate_games \<and>
   create_event_from_game test_game_week_2 = Inr (sample_event ''2'' ''2024_W1_TEST'') \<and>
   game_id test_game_week_2 = Some ''2024_W1_TEST'' \<and>
   filter (\<lambda>e. event_game_id (ev_body e) = Some ''2024_W1_TEST'')
     (listed ''cal'' ''2024-09-01T12:00:00'' duplicated_client) =
     [\<lparr>ev_cal = ''cal'', ev_id = 0, ev_body = test_event\<rparr>,
      \<lparr>ev_cal = ''cal'', ev_id = 1, ev_body = test_event\<rparr>] \<and>
   \<not> faults duplicated_client 0 \<and> \<not> faults duplicated_client 1 \<and>
   \<not> faults duplicated_client 2 \<and> client_ok duplicated_client \<and>
   description tagged_twice =
     Some (''Week 1 NFL Game'' @ [CHR 0x0A] @ ''Game ID: A'' @ [CHR 0x0A] @ ''Game ID: B'') \<and>
   split_on (CHR 0x0A)
     (''Week 1 NFL Game'' @ [CHR 0x0A] @ ''Game ID: A'' @ [CHR 0x0A] @ ''Game ID: B'') =
     [''Week 1 NFL Game''] @ ''Game ID: A'' # [''Game ID: B''] \<and>
   \<not> startswith ''Week 1 NFL Game'' ''Game ID:'' \<and> startswith ''Game ID: A'' ''Game ID:'' \<and>
   listing_index ''cal'' ''2024-09-01T12:00:00'' duplicated_client ''2024_W1_TEST'' = Some 1 \<and>
   event_game_id tagged_twice = Some ''A'' \<and>
   calls (snd (sync_games_to_calendar test_credentials ''cal'' duplicate_games
                 ''2024-09-01T12:00:00'' duplicated_client)) =
     [ListCall ''cal'' ''2024-09-01T12:00:00Z'',
      InsertCall ''cal'' (sample_event ''1'' ''G1''),
      UpdateCall ''cal'' 1 (sample_event ''2'' ''2024_W1_TEST'')] \<and>
   updates_to ''cal'' 1
     (calls (snd (sync_games_to_calendar test_credentials ''cal'' duplicate_games
                    ''2024-09-01T12:00:00'' duplicated_client))) =
     [sample_event ''2'' ''2024_W1_TEST''] \<and>
   updates_to ''cal'' 0
     (calls (snd (sync_games_to_calendar test_credentials ''cal'' duplicate_games
                    ''2024-09-01T12:00:00'' duplicated_client))) = [] \<and>
   \<lparr>ev_cal = ''cal'', ev_id = 0, ev_body = test_event\<rparr>
     \<in> set (store (snd (sync_games_to_calendar test_credentials ''cal'' duplicate_games
                          ''2024-09-01T12:00:00'' duplicated_client))) \<and>
   ev_body (store (snd (sync_games_to_calendar test_credentials ''cal'' duplicate_games
                          ''2024-09-01T12:00:00'' duplicated_client)) ! 1) =
     sample_event ''2'' ''2024_W1_TEST''"
proof -
  let ?cl' = "snd (sync_games_to_calendar test_credentials ''cal'' duplicate_games
                 ''2024-09-01T12:00:00'' duplicated_client)"
  let ?d = "''Week 1 NFL Game'' @ [CHR 0x0A] @ ''Game ID: A'' @ [CHR 0x0A] @ ''Game ID: B''"
  have m: "test_game_week_2 \<in> set duplicate_games" by (simp add: duplicate_games_def)
  have g: "game_id test_game_week_2 = Some ''2024_W1_TEST''"
    by (simp add: test_game_week_2_def test_game_def)
  have ok: "client_ok duplicated_client" by (simp add: client_ok_def duplicated_client_def)
  have f: "\<not> faults duplicated_client (length (calls duplicated_client))" by simp
  have f0: "\<not> faults duplicated_client 0" "\<not> faults duplicated_client 1"
    "\<not> faults duplicated_client 2" by simp_all
  have x: "description tagged_twice = Some ?d" by (simp add: tagged_twice_def)
  have sp: "split_on (CHR 0x0A) ?d = [''Week 1 NFL Game''] @ ''Game ID: A'' # [''Game ID: B'']"
    by simp
  have p: "\<not> startswith ''Week 1 NFL Game'' ''Game ID:''" "startswith ''Game ID: A'' ''Game ID:''"
    by (simp_all add: startswith_def)
  have c: "calls ?cl' = [ListCall ''cal'' ''2024-09-01T12:00:00Z'',
      InsertCall ''cal'' (sample_event ''1'' ''G1''),
      UpdateCall ''cal'' 1 (sample_event ''2'' ''2024_W1_TEST'')]"
    by (simp add: duplicated_run)
  note t = last_listed_duplicate_is_updated [OF build_calendar_service_test m
         create_event_week_2 g listed_duplicated [symmetric] _ f ok refl refl,
         where x = tagged_twice and desc = "?d" and pre = "[''Week 1 NFL Game'']"
           and l = "''Game ID: A''" and post = "[''Game ID: B'']"]
  have i: "listing_index ''cal'' ''2024-09-01T12:00:00'' duplicated_client ''2024_W1_TEST''
             = Some 1"
    using t [THEN conjunct1] by simp
  have e: "event_game_id tagged_twice = Some ''A''"
    using t [THEN conjunct2, THEN conjunct1] x sp p
    by (simp add: tag_A)
  have tr: "transformed (filter (\<lambda>g. game_id g = Some ''2024_W1_TEST'') duplicate_games) =
      [sample_event ''2'' ''2024_W1_TEST'']"
    by (simp add: duplicate_games_def g transformed_def create_event_week_2 map_filter_simps)
  have u1: "updates_to ''cal'' 1 (calls ?cl') = [sample_event ''2'' ''2024_W1_TEST'']"
    using t [THEN conjunct2, THEN conjunct2, THEN conjunct1] by (simp add: tr)
  have o: "updates_to ''cal'' 0 (calls ?cl') = [] \<and>
     \<lparr>ev_cal = ''cal'', ev_id = 0, ev_body = test_event\<rparr> \<in> set (store ?cl')"
    using t [THEN conjunct2, THEN conjunct2, THEN conjunct2, THEN conjunct2, THEN conjunct1]
    by simp
  have b: "ev_body (store ?cl' ! 1) = sample_event ''2'' ''2024_W1_TEST''"
    using t [THEN conjunct2, THEN conjunct2, THEN conjunct2, THEN conjunct2, THEN conjunct2]
    by (simp add: tr duplicated_run is_event_def)
  from build_calendar_service_test m create_event_week_2 g listed_duplicated f0 ok x sp p i e c
    u1 o [THEN conjunct1] o [THEN conjunct2] b
  show ?thesis by (intro conjI)
qed

end
